theory Spec2Isabelle
  imports Main "HOL-Library.AList" "HOL-Library.Word"
begin

section \<open>Server-side handle manager (pkg/filesystem, HandleManager)\<close>

text \<open>
  The Go type \<^verbatim>\<open>HandleManager\<close> keeps a map from handle ids to
  \<^verbatim>\<open>*ManagedHandle\<close> behind one mutex; every exported method takes the lock
  for its whole body, so the methods are modelled as atomic state transformers.

  \<^item> Instants (\<^verbatim>\<open>time.Time\<close>) and durations (\<^verbatim>\<open>time.Duration\<close>) are
    integers counting nanoseconds; \<^verbatim>\<open>t.Add(d)\<close> is addition,
    \<^verbatim>\<open>t.After(u)\<close> is \<open>u < t\<close> and \<^verbatim>\<open>t.Before(u)\<close> is \<open>t < u\<close>.
  \<^item> The reading of \<^verbatim>\<open>time.Now()\<close> and the string produced by
    \<^verbatim>\<open>generateID()\<close> (16 random bytes) come from the environment and are
    arguments of the operation that reads them.
  \<^item> The Go map is an association list with pairwise distinct keys
    (\<open>distinct_keys\<close>); the order of the list stands for the order in which a
    \<^verbatim>\<open>range\<close> over the map yields its entries, which Go leaves open.
  \<^item> \<^verbatim>\<open>FileHandle\<close> is an interface declared outside the files at hand; the
    type variable \<open>'h\<close> stands for its values, and the function \<open>hclose\<close> for
    the error (or nil) that the method \<^verbatim>\<open>Close()\<close> of a handle returns.
    Every call of \<^verbatim>\<open>mh.Handle.Close()\<close> is recorded, with the id under which
    the handle was stored, at the end of the log \<open>closed\<close>.
\<close>

type_synonym time = int
type_synonym duration = int

definition Add :: "time \<Rightarrow> duration \<Rightarrow> time" where
  "Add t d = t + d"

definition After :: "time \<Rightarrow> time \<Rightarrow> bool" where
  "After t u \<longleftrightarrow> u < t"

definition Before :: "time \<Rightarrow> time \<Rightarrow> bool" where
  "Before t u \<longleftrightarrow> t < u"

definition second :: duration where
  "second = 1000000000"

definition minute :: duration where
  "minute = 60 * second"

datatype error =
    ErrNotFound
  | EOF
  | ErrMaxHandles int
  | ErrHandle string

record 'h ManagedHandle =
  Handle :: 'h
  Path :: string
  Flags :: nat
  LeaseTime :: duration
  ExpiresAt :: time
  CreatedAt :: time
  LastAccess :: time

record HandleManagerConfig =
  DefaultLease :: duration
  MaxLease :: duration
  MaxHandles :: int
  CleanupInterval :: duration

record 'h HandleManager =
  handles :: "(string \<times> 'h ManagedHandle) list"
  config :: HandleManagerConfig
  closed :: "(string \<times> 'h) list"

definition distinct_keys :: "'h HandleManager \<Rightarrow> bool" where
  "distinct_keys hm \<longleftrightarrow> distinct (map fst (handles hm))"

definition DefaultHandleManagerConfig :: HandleManagerConfig where
  "DefaultHandleManagerConfig =
     \<lparr>DefaultLease = 60 * second, MaxLease = 5 * minute,
      MaxHandles = 10000, CleanupInterval = 10 * second\<rparr>"

definition NewHandleManager :: "HandleManagerConfig \<Rightarrow> 'h HandleManager" where
  "NewHandleManager cfg =
     (let c1 = (if DefaultLease cfg = 0 then cfg\<lparr>DefaultLease := 60 * second\<rparr> else cfg);
          c2 = (if MaxLease c1 = 0 then c1\<lparr>MaxLease := 5 * minute\<rparr> else c1);
          c3 = (if MaxHandles c2 = 0 then c2\<lparr>MaxHandles := 10000\<rparr> else c2);
          c4 = (if CleanupInterval c3 = 0 then c3\<lparr>CleanupInterval := 10 * second\<rparr> else c3)
      in \<lparr>handles = [], config = c4, closed = []\<rparr>)"

text \<open>\<^verbatim>\<open>Register\<close>: the argument \<open>newid\<close> is what \<^verbatim>\<open>generateID()\<close> returns.\<close>

definition Register ::
  "string \<Rightarrow> time \<Rightarrow> 'h \<Rightarrow> string \<Rightarrow> nat \<Rightarrow> duration \<Rightarrow> 'h HandleManager
     \<Rightarrow> (error + string \<times> time) \<times> 'h HandleManager" where
  "Register newid now handle path flags lease hm =
     (if MaxHandles (config hm) \<le> int (length (handles hm))
      then (Inl (ErrMaxHandles (MaxHandles (config hm))), hm)
      else
        let lease1 = (if lease \<le> 0 then DefaultLease (config hm) else lease);
            lease2 = (if MaxLease (config hm) < lease1 then MaxLease (config hm) else lease1);
            expiresAt = Add now lease2
        in (Inr (newid, expiresAt),
            hm\<lparr>handles := AList.update newid
               \<lparr>Handle = handle, Path = path, Flags = flags, LeaseTime = lease2,
                ExpiresAt = expiresAt, CreatedAt = now, LastAccess = now\<rparr> (handles hm)\<rparr>))"

definition Get :: "time \<Rightarrow> string \<Rightarrow> 'h HandleManager \<Rightarrow> (error + 'h) \<times> 'h HandleManager" where
  "Get now hid hm =
     (case map_of (handles hm) hid of
        None \<Rightarrow> (Inl ErrNotFound, hm)
      | Some mh \<Rightarrow>
          if After now (ExpiresAt mh)
          then (Inl ErrNotFound,
                hm\<lparr>handles := AList.delete hid (handles hm),
                   closed := closed hm @ [(hid, Handle mh)]\<rparr>)
          else (Inr (Handle mh),
                hm\<lparr>handles := AList.update hid
                   (mh\<lparr>LastAccess := now, ExpiresAt := Add now (LeaseTime mh)\<rparr>) (handles hm)\<rparr>))"

definition GetInfo :: "time \<Rightarrow> string \<Rightarrow> 'h HandleManager \<Rightarrow> error + 'h ManagedHandle" where
  "GetInfo now hid hm =
     (case map_of (handles hm) hid of
        None \<Rightarrow> Inl ErrNotFound
      | Some mh \<Rightarrow> if After now (ExpiresAt mh) then Inl ErrNotFound else Inr mh)"

definition Renew ::
  "time \<Rightarrow> string \<Rightarrow> duration \<Rightarrow> 'h HandleManager \<Rightarrow> (error + time) \<times> 'h HandleManager" where
  "Renew now hid lease hm =
     (case map_of (handles hm) hid of
        None \<Rightarrow> (Inl ErrNotFound, hm)
      | Some mh \<Rightarrow>
          if After now (ExpiresAt mh)
          then (Inl ErrNotFound,
                hm\<lparr>handles := AList.delete hid (handles hm),
                   closed := closed hm @ [(hid, Handle mh)]\<rparr>)
          else
            let lease1 = (if lease \<le> 0 then LeaseTime mh else lease);
                lease2 = (if MaxLease (config hm) < lease1 then MaxLease (config hm) else lease1)
            in (Inr (Add now lease2),
                hm\<lparr>handles := AList.update hid
                   (mh\<lparr>LeaseTime := lease2, ExpiresAt := Add now lease2, LastAccess := now\<rparr>)
                   (handles hm)\<rparr>))"

text \<open>
  \<^verbatim>\<open>Close\<close> returns the error of the handle's own \<^verbatim>\<open>Close()\<close> (\<open>None\<close> is
  nil) and deletes the entry whatever that error is.
\<close>

definition Close ::
  "('h \<Rightarrow> error option) \<Rightarrow> string \<Rightarrow> 'h HandleManager \<Rightarrow> error option \<times> 'h HandleManager" where
  "Close hclose hid hm =
     (case map_of (handles hm) hid of
        None \<Rightarrow> (Some ErrNotFound, hm)
      | Some mh \<Rightarrow>
          (hclose (Handle mh),
           hm\<lparr>closed := closed hm @ [(hid, Handle mh)],
              handles := AList.delete hid (handles hm)\<rparr>))"

definition List :: "time \<Rightarrow> 'h HandleManager \<Rightarrow> 'h ManagedHandle list" where
  "List now hm = map snd (filter (\<lambda>(hid, mh). Before now (ExpiresAt mh)) (handles hm))"

definition Count :: "'h HandleManager \<Rightarrow> int" where
  "Count hm = int (length (handles hm))"

text \<open>
  \<^verbatim>\<open>cleanup\<close> ranges over the map and deletes the current entry when it has
  expired. \<open>cleanup_range\<close> is that loop over the entries the range yields.
\<close>

fun cleanup_range ::
  "time \<Rightarrow> (string \<times> 'h ManagedHandle) list \<Rightarrow> 'h HandleManager \<Rightarrow> 'h HandleManager" where
  "cleanup_range now [] hm = hm"
| "cleanup_range now ((hid, mh) # rest) hm =
     (if After now (ExpiresAt mh)
      then cleanup_range now rest
             (hm\<lparr>closed := closed hm @ [(hid, Handle mh)],
                 handles := AList.delete hid (handles hm)\<rparr>)
      else cleanup_range now rest hm)"

definition cleanup :: "time \<Rightarrow> 'h HandleManager \<Rightarrow> 'h HandleManager" where
  "cleanup now hm = cleanup_range now (handles hm) hm"

text \<open>
  The callers of the manager and the ticker of \<^verbatim>\<open>cleanupLoop\<close> are serialised
  by the mutex: a history of the manager is a list of calls, each with the instant
  its \<^verbatim>\<open>time.Now()\<close> reads.
\<close>

datatype 'h call =
    CallRegister string 'h string nat duration
  | CallGet string
  | CallRenew string duration
  | CallClose string
  | CallCleanup

fun exec :: "('h \<Rightarrow> error option) \<Rightarrow> 'h HandleManager \<Rightarrow> time \<times> 'h call \<Rightarrow> 'h HandleManager" where
  "exec hclose hm (now, CallRegister newid h p f l) = snd (Register newid now h p f l hm)"
| "exec hclose hm (now, CallGet hid) = snd (Get now hid hm)"
| "exec hclose hm (now, CallRenew hid l) = snd (Renew now hid l hm)"
| "exec hclose hm (now, CallClose hid) = snd (Close hclose hid hm)"
| "exec hclose hm (now, CallCleanup) = cleanup now hm"

definition run :: "('h \<Rightarrow> error option) \<Rightarrow> 'h HandleManager \<Rightarrow> (time \<times> 'h call) list \<Rightarrow> 'h HandleManager" where
  "run hclose hm cs = foldl (exec hclose) hm cs"

section \<open>The devfs plugin (pkg/plugins/devfs)\<close>

text \<open>
  A Go byte slice is \<open>None\<close> when it is nil and \<open>Some bs\<close> otherwise; a Go
  result \<^verbatim>\<open>([]byte, error)\<close> is the pair of the slice and the error, \<open>None\<close>
  for a nil error. \<^verbatim>\<open>DevFS.Read\<close> looks at the path only. Of
  \<^verbatim>\<open>FileInfo\<close> the model keeps the fields that do not depend on the clock.
\<close>

type_synonym byte = "8 word"
type_synonym slice = "byte list option"

definition len :: "slice \<Rightarrow> int" where
  "len s = (case s of None \<Rightarrow> 0 | Some bs \<Rightarrow> int (length bs))"

definition bytes_of :: "slice \<Rightarrow> byte list" where
  "bytes_of s = (case s of None \<Rightarrow> [] | Some bs \<Rightarrow> bs)"

record FileInfo =
  Name :: string
  Size :: int
  Mode :: nat
  IsDir :: bool

definition DevFS_Read :: "string \<Rightarrow> int \<Rightarrow> int \<Rightarrow> slice \<times> error option" where
  "DevFS_Read p offset sz =
     (if p = ''/null'' then (None, Some EOF) else (None, Some ErrNotFound))"

definition DevFS_Stat :: "string \<Rightarrow> error + FileInfo" where
  "DevFS_Stat p =
     (if p = ''/null'' then Inr \<lparr>Name = ''null'', Size = 0, Mode = 438, IsDir = False\<rparr>
      else if p = ''/'' then Inr \<lparr>Name = ''/'', Size = 0, Mode = 365, IsDir = True\<rparr>
      else Inl ErrNotFound)"

section \<open>FUSE-side handle bridge (agfs-fuse/pkg/fusefs/handles.go)\<close>

text \<open>
  The bridge's \<^verbatim>\<open>HandleManager\<close> maps FUSE handle ids (\<^verbatim>\<open>uint64\<close>) to
  \<^verbatim>\<open>*handleInfo\<close>. Its names carry the prefix \<open>Fuse\<close> here, the server's
  manager having the same ones. The SDK client (\<^verbatim>\<open>agfs.Client\<close>) is outside
  the files at hand: what a client call returns is an argument \<open>resp\<close> of the
  operation that makes the call, and every call made is appended to the log
  \<open>client_calls\<close>. \<^verbatim>\<open>Open\<close> and \<^verbatim>\<open>Close\<close>
  are modelled for one caller at a time, \<^verbatim>\<open>Read\<close> in the two parts that
  its lock separates.
\<close>

datatype handleType = handleTypeRemote | handleTypeLocal

record handleInfo =
  htype :: handleType
  agfsHandle :: int
  path :: string
  flags :: nat
  mode :: nat
  readBuffer :: slice

datatype client_error = ErrNotSupported | ErrClient string

datatype client_call =
    ClientOpenHandle string nat nat
  | ClientCloseHandle int
  | ClientReadHandle int int int
  | ClientRead string int int

datatype fuse_error =
    HandleNotFound "64 word"
  | Wrapped string client_error

record FuseHandleManager =
  fhandles :: "64 word \<rightharpoonup> handleInfo"
  nextHandle :: "64 word"
  client_calls :: "client_call list"

definition Fuse_NewHandleManager :: FuseHandleManager where
  "Fuse_NewHandleManager = \<lparr>fhandles = Map.empty, nextHandle = 1, client_calls = []\<rparr>"

text \<open>
  \<^verbatim>\<open>Open\<close>: \<open>resp\<close> is the result of \<^verbatim>\<open>client.OpenHandle\<close>;
  \<^verbatim>\<open>atomic.AddUint64\<close> returns the incremented counter, modulo \<open>2^64\<close>.
\<close>

definition Fuse_Open ::
  "client_error + int \<Rightarrow> string \<Rightarrow> nat \<Rightarrow> nat \<Rightarrow> FuseHandleManager
     \<Rightarrow> (fuse_error + 64 word) \<times> FuseHandleManager" where
  "Fuse_Open resp p fl md hm =
     (let fuseHandle = nextHandle hm + 1;
          hm1 = hm\<lparr>nextHandle := fuseHandle,
                   client_calls := client_calls hm @ [ClientOpenHandle p fl md]\<rparr>
      in case resp of
           Inl err \<Rightarrow>
             if err = ErrNotSupported
             then (Inr fuseHandle,
                   hm1\<lparr>fhandles := (fhandles hm1)(fuseHandle \<mapsto>
                      \<lparr>htype = handleTypeLocal, agfsHandle = 0, path = p, flags = fl,
                       mode = md, readBuffer = None\<rparr>)\<rparr>)
             else (Inl (Wrapped ''failed to open handle'' err), hm1)
         | Inr h \<Rightarrow>
             (Inr fuseHandle,
              hm1\<lparr>fhandles := (fhandles hm1)(fuseHandle \<mapsto>
                 \<lparr>htype = handleTypeRemote, agfsHandle = h, path = p, flags = fl,
                  mode = md, readBuffer = None\<rparr>)\<rparr>))"

text \<open>\<^verbatim>\<open>Close\<close>: \<open>resp\<close> is the result of \<^verbatim>\<open>client.CloseHandle\<close>.\<close>

definition Fuse_Close ::
  "client_error option \<Rightarrow> 64 word \<Rightarrow> FuseHandleManager
     \<Rightarrow> fuse_error option \<times> FuseHandleManager" where
  "Fuse_Close resp fuseHandle hm =
     (case fhandles hm fuseHandle of
        None \<Rightarrow> (Some (HandleNotFound fuseHandle), hm)
      | Some info \<Rightarrow>
          let hm1 = hm\<lparr>fhandles := (fhandles hm)(fuseHandle := None)\<rparr>
          in if htype info = handleTypeRemote
             then (case resp of
                     Some err \<Rightarrow> Some (Wrapped ''failed to close handle'' err)
                   | None \<Rightarrow> None,
                   hm1\<lparr>client_calls := client_calls hm1 @ [ClientCloseHandle (agfsHandle info)]\<rparr>)
             else (None, hm1))"

text \<open>
  The result of \<^verbatim>\<open>Read\<close>: the bytes returned, an error, or the run-time panic
  of a slice expression out of range. \<open>int64\<close> is the value of a sum computed
  in \<^verbatim>\<open>int64\<close>. \<open>requested_portion\<close> is the code that follows the test of
  \<^verbatim>\<open>offset >= int64(len(data))\<close>, which \<^verbatim>\<open>Read\<close> has twice (for the data
  just fetched and for the buffer).
\<close>

datatype read_result = ReadOk "byte list" | ReadErr fuse_error | ReadPanic

definition int64 :: "int \<Rightarrow> int" where
  "int64 x = (x + 2 ^ 63) mod 2 ^ 64 - 2 ^ 63"

definition slice_expr :: "byte list \<Rightarrow> int \<Rightarrow> int \<Rightarrow> read_result" where
  "slice_expr data lo hi =
     (if 0 \<le> lo \<and> lo \<le> hi \<and> hi \<le> int (length data)
      then ReadOk (take (nat (hi - lo)) (drop (nat lo) data))
      else ReadPanic)"

definition requested_portion :: "byte list \<Rightarrow> int \<Rightarrow> int \<Rightarrow> read_result" where
  "requested_portion data offset sz =
     (if int (length data) \<le> offset then ReadOk []
      else
        let end0 = int64 (offset + sz);
            end1 = (if int (length data) < end0 then int (length data) else end0)
        in slice_expr data offset end1)"

text \<open>
  \<^verbatim>\<open>Read\<close> holds \<^verbatim>\<open>hm.mu\<close> while it looks the handle up, releases it
  before it calls the client, and takes it again to store the data fetched. The
  two parts are modelled apart, so that calls of other goroutines can come
  between them.

  \<open>Read_lookup\<close> is the part under the first lock: it ends the read (handle
  not found, or a local handle with a buffer, served from it) or leaves a client
  call to make, \<^verbatim>\<open>client.ReadHandle\<close> for a remote handle and
  \<^verbatim>\<open>client.Read(path, 0, -1)\<close> for a local handle whose buffer is nil. It
  changes nothing in the manager.

  \<open>Read_finish\<close> is the rest: the client call, whose result is \<open>resp\<close>, and
  what \<^verbatim>\<open>Read\<close> does with it; for a local handle, under the second lock,
  the handle is looked up again and, if still there, given the data as its
  buffer.

  \<open>Fuse_Read\<close> is a whole call of \<^verbatim>\<open>Read\<close> that no other call on the
  manager overlaps.
\<close>

datatype read_pending =
    Finished read_result
  | PendingReadHandle int
  | PendingRead string

definition Read_lookup :: "64 word \<Rightarrow> int \<Rightarrow> int \<Rightarrow> FuseHandleManager \<Rightarrow> read_pending" where
  "Read_lookup fuseHandle offset sz hm =
     (case fhandles hm fuseHandle of
        None \<Rightarrow> Finished (ReadErr (HandleNotFound fuseHandle))
      | Some info \<Rightarrow>
          if htype info = handleTypeRemote then PendingReadHandle (agfsHandle info)
          else
            (case readBuffer info of
               None \<Rightarrow> PendingRead (path info)
             | Some buf \<Rightarrow> Finished (requested_portion buf offset sz)))"

definition Read_finish ::
  "read_pending \<Rightarrow> client_error + slice \<Rightarrow> 64 word \<Rightarrow> int \<Rightarrow> int \<Rightarrow> FuseHandleManager
     \<Rightarrow> read_result \<times> FuseHandleManager" where
  "Read_finish pending resp fuseHandle offset sz hm =
     (case pending of
        Finished r \<Rightarrow> (r, hm)
      | PendingReadHandle h \<Rightarrow>
          let hm1 = hm\<lparr>client_calls := client_calls hm @ [ClientReadHandle h offset sz]\<rparr>
          in (case resp of
                Inl err \<Rightarrow> (ReadErr (Wrapped ''failed to read handle'' err), hm1)
              | Inr data \<Rightarrow> (ReadOk (bytes_of data), hm1))
      | PendingRead p \<Rightarrow>
          let hm1 = hm\<lparr>client_calls := client_calls hm @ [ClientRead p 0 (- 1)]\<rparr>
          in (case resp of
                Inl err \<Rightarrow> (ReadErr (Wrapped ''failed to read file'' err), hm1)
              | Inr data \<Rightarrow>
                  let hm2 = (case fhandles hm1 fuseHandle of
                               Some info' \<Rightarrow>
                                 hm1\<lparr>fhandles := (fhandles hm1)(fuseHandle \<mapsto>
                                        info'\<lparr>readBuffer := data\<rparr>)\<rparr>
                             | None \<Rightarrow> hm1)
                  in (requested_portion (bytes_of data) offset sz, hm2)))"

definition Fuse_Read ::
  "client_error + slice \<Rightarrow> 64 word \<Rightarrow> int \<Rightarrow> int \<Rightarrow> FuseHandleManager
     \<Rightarrow> read_result \<times> FuseHandleManager" where
  "Fuse_Read resp fuseHandle offset sz hm =
     Read_finish (Read_lookup fuseHandle offset sz hm) resp fuseHandle offset sz hm"

text \<open>
  Two calls of \<^verbatim>\<open>Read\<close> on one handle by two goroutines, the second entering
  while the first is at the client: both lookups see the manager as it was, then
  the first call finishes, then the second.
\<close>

definition Fuse_Read_overlapped ::
  "(client_error + slice) \<times> int \<times> int \<Rightarrow> (client_error + slice) \<times> int \<times> int \<Rightarrow> 64 word
     \<Rightarrow> FuseHandleManager \<Rightarrow> (read_result \<times> read_result) \<times> FuseHandleManager" where
  "Fuse_Read_overlapped a b fuseHandle hm =
     (case (a, b) of
        ((resp_a, offset_a, sz_a), (resp_b, offset_b, sz_b)) \<Rightarrow>
          let pending_a = Read_lookup fuseHandle offset_a sz_a hm;
              pending_b = Read_lookup fuseHandle offset_b sz_b hm;
              (r_a, hm1) = Read_finish pending_a resp_a fuseHandle offset_a sz_a hm;
              (r_b, hm2) = Read_finish pending_b resp_b fuseHandle offset_b sz_b hm1
          in ((r_a, r_b), hm2))"

text \<open>
  A run of reads on one handle, one after the other, each with the response its
  client call would get. A read that panics ends the run: its goroutine does not
  return, and where the panic is that of the buffered slice expression,
  \<^verbatim>\<open>hm.mu\<close> stays locked and no later call on the manager returns.
\<close>

fun Fuse_Reads ::
  "64 word \<Rightarrow> ((client_error + slice) \<times> int \<times> int) list \<Rightarrow> FuseHandleManager
     \<Rightarrow> read_result list \<times> FuseHandleManager" where
  "Fuse_Reads fuseHandle [] hm = ([], hm)"
| "Fuse_Reads fuseHandle ((resp, offset, sz) # rs) hm =
     (let (r, hm1) = Fuse_Read resp fuseHandle offset sz hm
      in if r = ReadPanic then ([r], hm1)
         else let (out, hm2) = Fuse_Reads fuseHandle rs hm1 in (r # out, hm2))"

section \<open>The index queue of vectorfs (pkg/plugins/vectorfs)\<close>

text \<open>
  Of \<^verbatim>\<open>VectorFSPlugin\<close> the model keeps what the queue of index tasks uses.
  The buffered channel \<^verbatim>\<open>indexQueue\<close> is the list of the tasks it holds,
  oldest first, with its capacity (100 in \<^verbatim>\<open>Initialize\<close>, 1 in the tests) and
  whether it has been closed; of the channel \<^verbatim>\<open>shutdown\<close>, which carries no
  value, only whether it has been closed. \<^verbatim>\<open>indexingStatus\<close>, a map of maps, is
  an association list of association lists. \<open>supervisors\<close> lists the goroutines
  that \<^verbatim>\<open>Write\<close> has started on an overflow and that are still in their
  \<^verbatim>\<open>select\<close>, each by the task it holds. The field \<^verbatim>\<open>data\<close> of a task is
  \<open>task_data\<close> here.

  A goroutine at a channel operation goes on, stays blocked, or panics (a send
  on a closed channel). Where a \<^verbatim>\<open>select\<close> has several cases, the case taken
  is an argument: the Go scheduler chooses among the cases that can proceed, and
  \<open>Blocks\<close> is the answer for a case that cannot.
\<close>

record indexTask =
  namespace :: string
  digest :: string
  fileName :: string
  task_data :: string

record indexingFileInfo =
  FileName :: string
  StartTime :: time

record VectorFSPlugin =
  indexQueue :: "indexTask list"
  indexQueueCap :: nat
  indexQueueClosed :: bool
  shutdown :: bool
  indexingStatus :: "(string \<times> (string \<times> indexingFileInfo) list) list"
  supervisors :: "indexTask list"

definition addIndexingTask ::
  "string \<Rightarrow> string \<Rightarrow> string \<Rightarrow> time \<Rightarrow> VectorFSPlugin \<Rightarrow> VectorFSPlugin" where
  "addIndexingTask ns dg fname now v =
     (let files = (case map_of (indexingStatus v) ns of None \<Rightarrow> [] | Some m \<Rightarrow> m)
      in v\<lparr>indexingStatus :=
           AList.update ns (AList.update dg \<lparr>FileName = fname, StartTime = now\<rparr> files)
             (indexingStatus v)\<rparr>)"

definition removeIndexingTask :: "string \<Rightarrow> string \<Rightarrow> VectorFSPlugin \<Rightarrow> VectorFSPlugin" where
  "removeIndexingTask ns dg v =
     (case map_of (indexingStatus v) ns of
        None \<Rightarrow> v
      | Some m \<Rightarrow>
          if length (AList.delete dg m) = 0
          then v\<lparr>indexingStatus := AList.delete ns (indexingStatus v)\<rparr>
          else v\<lparr>indexingStatus := AList.update ns (AList.delete dg m) (indexingStatus v)\<rparr>)"

datatype 'a step = Blocks | Panics | Proceeds 'a









section \<open>Auxiliary notions and test data\<close>

text \<open>The ids that the registrations of a history draw from \<^verbatim>\<open>generateID()\<close>.\<close>

fun registered_ids :: "(time \<times> 'h call) list \<Rightarrow> string list" where
  "registered_ids [] = []"
| "registered_ids ((now, CallRegister newid h p f l) # cs) = newid # registered_ids cs"
| "registered_ids (c # cs) = registered_ids cs"

text \<open>The keys of the entries that \<^verbatim>\<open>cleanup\<close> finds expired at \<open>now\<close>.\<close>

definition expired_keys :: "time \<Rightarrow> (string \<times> 'h ManagedHandle) list \<Rightarrow> string set" where
  "expired_keys now es = set (map fst (filter (\<lambda>(k, mh). After now (ExpiresAt mh)) es))"

text \<open>
  The configuration of \<^verbatim>\<open>TestHandleManagerMaxHandles\<close> and the manager after
  its three registrations (handles are numbered, instants count from 0).
\<close>

definition millisecond :: duration where
  "millisecond = 1000000"

definition test_config :: HandleManagerConfig where
  "test_config =
     \<lparr>DefaultLease = 100 * millisecond, MaxLease = 500 * millisecond,
      MaxHandles = 3, CleanupInterval = 1 * second\<rparr>"

definition three_handles :: "nat HandleManager" where
  "three_handles =
     run (\<lambda>_. None) (NewHandleManager test_config)
       [(0, CallRegister ''h_a'' 11 ''/test/file.txt'' 2 0),
        (1, CallRegister ''h_b'' 12 ''/test/file.txt'' 2 0),
        (2, CallRegister ''h_c'' 13 ''/test/file.txt'' 2 0)]"

text \<open>The manager after the first registration of the same test.\<close>

definition mh_a :: "nat ManagedHandle" where
  "mh_a = \<lparr>Handle = 11, Path = ''/test/file.txt'', Flags = 2, LeaseTime = 100000000,
           ExpiresAt = 100000000, CreatedAt = 0, LastAccess = 0\<rparr>"

definition one_handle :: "nat HandleManager" where
  "one_handle =
     run (\<lambda>_. None) (NewHandleManager test_config)
       [(0, CallRegister ''h_a'' 11 ''/test/file.txt'' 2 0)]"

text \<open>
  Histories used as test data: closes with a handle whose \<^verbatim>\<open>Close()\<close> fails
  (\<open>failing_close\<close>), a lookup that refreshes the lease, and a renewal with an
  oversized lease.
\<close>

definition failing_close :: "nat \<Rightarrow> error option" where
  "failing_close h = (if h = 11 then Some (ErrHandle ''close failed'') else None)"

definition close_history :: "(time \<times> nat call) list" where
  "close_history =
     [(0, CallRegister ''h_a'' 11 ''/test/file.txt'' 2 0),
      (1, CallRegister ''h_b'' 12 ''/test/file.txt'' 2 0),
      (2, CallRegister ''h_c'' 13 ''/test/file.txt'' 2 0),
      (3, CallClose ''h_c''),
      (200000000, CallGet ''h_b'')]"

definition later_history :: "(time \<times> nat call) list" where
  "later_history = [(300000000, CallCleanup), (300000001, CallGet ''h_a'')]"

definition renew_history :: "(time \<times> nat call) list" where
  "renew_history =
     [(0, CallRegister ''h_a'' 11 ''/test/file.txt'' 2 0),
      (30000000, CallGet ''h_a''),
      (40000000, CallRenew ''h_a'' (3600 * second))]"

definition get_history :: "(time \<times> nat call) list" where
  "get_history = [(30000000, CallGet ''h_a'')]"

definition mh_refreshed :: "nat ManagedHandle" where
  "mh_refreshed = \<lparr>Handle = 11, Path = ''/test/file.txt'', Flags = 2, LeaseTime = 100000000,
           ExpiresAt = 130000000, CreatedAt = 0, LastAccess = 30000000\<rparr>"

text \<open>
  The bytes of a buffer at the positions from \<open>lo\<close> up to, not including,
  \<open>hi\<close>: the slice \<open>[lo, hi)\<close> in the words of the specification.
\<close>

definition byte_range :: "byte list \<Rightarrow> nat \<Rightarrow> nat \<Rightarrow> byte list" where
  "byte_range buf lo hi = map (\<lambda>i. buf ! i) [lo..<hi]"

text \<open>
  A local handle as \<^verbatim>\<open>Open\<close> creates it when the server answers
  not-supported, and a payload of 25 bytes.
\<close>

definition queue_payload :: "byte list" where
  "queue_payload = [0, 1, 2, 3, 4, 5, 6, 7, 8, 9, 10, 11, 12, 13, 14, 15, 16, 17, 18, 19, 20, 21, 22, 23, 24]"

definition local_opened :: FuseHandleManager where
  "local_opened = snd (Fuse_Open (Inl ErrNotSupported) ''/queue/dequeue'' 0 0 Fuse_NewHandleManager)"

definition local_info :: handleInfo where
  "local_info = \<lparr>htype = handleTypeLocal, agfsHandle = 0, path = ''/queue/dequeue'', flags = 0,
                  mode = 0, readBuffer = None\<rparr>"

text \<open>
  The entry of the indexing status for a namespace and a digest, and the data of
  \<^verbatim>\<open>TestIndexQueueShutdownAwareness\<close>: a queue of capacity 1 that holds one
  task, and the plugin after a write of a second task at instant 5.
\<close>

definition indexing_marker :: "VectorFSPlugin \<Rightarrow> string \<Rightarrow> string \<Rightarrow> indexingFileInfo option" where
  "indexing_marker v ns dg =
     (case map_of (indexingStatus v) ns of None \<Rightarrow> None | Some m \<Rightarrow> map_of m dg)"





text \<open>
  The invariants of the table: what a record satisfies with respect to the
  configured maximum lease (\<open>lease_ok\<close>, \<open>lease_inv\<close>); and that keys are
  distinct, no id is both in the table and in the close log, no id is twice in
  the close log, and all ids are among those drawn so far (\<open>close_inv\<close>).
  \<open>handle_at\<close> is the plugin handle stored under an id.
\<close>

definition lease_ok :: "duration \<Rightarrow> 'h ManagedHandle \<Rightarrow> bool" where
  "lease_ok mx mh \<longleftrightarrow> ExpiresAt mh = Add (LastAccess mh) (LeaseTime mh) \<and> LeaseTime mh \<le> mx"

definition lease_inv :: "'h HandleManager \<Rightarrow> bool" where
  "lease_inv hm \<longleftrightarrow> (\<forall>e \<in> set (handles hm). lease_ok (MaxLease (config hm)) (snd e))"

definition close_inv :: "'h HandleManager \<Rightarrow> string set \<Rightarrow> bool" where
  "close_inv hm used \<longleftrightarrow>
     distinct (map fst (handles hm)) \<and> distinct (map fst (closed hm)) \<and>
     set (map fst (handles hm)) \<inter> set (map fst (closed hm)) = {} \<and>
     set (map fst (handles hm)) \<union> set (map fst (closed hm)) \<subseteq> used"

definition handle_at :: "'h HandleManager \<Rightarrow> string \<Rightarrow> 'h option" where
  "handle_at hm k = map_option Handle (map_of (handles hm) k)"

section \<open>Evaluation of the test data\<close>

lemmas time_defs = Add_def After_def Before_def millisecond_def second_def minute_def

lemma three_handles_eq:
  "three_handles =
     \<lparr>handles =
        [(''h_a'', \<lparr>Handle = 11, Path = ''/test/file.txt'', Flags = 2, LeaseTime = 100000000,
                    ExpiresAt = 100000000, CreatedAt = 0, LastAccess = 0\<rparr>),
         (''h_b'', \<lparr>Handle = 12, Path = ''/test/file.txt'', Flags = 2, LeaseTime = 100000000,
                    ExpiresAt = 100000001, CreatedAt = 1, LastAccess = 1\<rparr>),
         (''h_c'', \<lparr>Handle = 13, Path = ''/test/file.txt'', Flags = 2, LeaseTime = 100000000,
                    ExpiresAt = 100000002, CreatedAt = 2, LastAccess = 2\<rparr>)],
      config = \<lparr>DefaultLease = 100000000, MaxLease = 500000000, MaxHandles = 3,
                 CleanupInterval = 1000000000\<rparr>,
      closed = []\<rparr>"
  by (simp add: three_handles_def run_def NewHandleManager_def test_config_def Register_def
      time_defs)

lemma one_handle_eq:
  "one_handle =
     \<lparr>handles = [(''h_a'', mh_a)],
      config = \<lparr>DefaultLease = 100000000, MaxLease = 500000000, MaxHandles = 3,
                 CleanupInterval = 1000000000\<rparr>,
      closed = []\<rparr>"
  by (simp add: one_handle_def run_def NewHandleManager_def test_config_def Register_def
      time_defs mh_a_def)

lemma close_history_run:
  "run failing_close (NewHandleManager test_config) close_history =
     \<lparr>handles = [(''h_a'', mh_a)],
      config = \<lparr>DefaultLease = 100000000, MaxLease = 500000000, MaxHandles = 3,
                 CleanupInterval = 1000000000\<rparr>,
      closed = [(''h_c'', 13), (''h_b'', 12)]\<rparr>"
  by (simp add: close_history_def run_def NewHandleManager_def test_config_def Register_def
      Close_def Get_def time_defs mh_a_def failing_close_def)

lemma Register_first:
  "Register ''h_a'' 0 (11::nat) ''/test/file.txt'' 2 0 (NewHandleManager test_config) =
     (Inr (''h_a'', 100000000), one_handle)"
  by (simp add: one_handle_eq NewHandleManager_def test_config_def Register_def time_defs mh_a_def)

lemma get_history_run:
  "run hclose one_handle get_history =
     \<lparr>handles = [(''h_a'', mh_refreshed)],
      config = \<lparr>DefaultLease = 100000000, MaxLease = 500000000, MaxHandles = 3,
                 CleanupInterval = 1000000000\<rparr>,
      closed = []\<rparr>"
  by (simp add: one_handle_eq get_history_def run_def Get_def time_defs mh_a_def mh_refreshed_def)

lemma local_opened_eq:
  "local_opened = \<lparr>fhandles = [2 \<mapsto> local_info], nextHandle = 2,
      client_calls = [ClientOpenHandle ''/queue/dequeue'' 0 0]\<rparr>"
  by (simp add: local_opened_def Fuse_Open_def Fuse_NewHandleManager_def local_info_def Let_def)

section \<open>The reaper loop\<close>

lemma restrict_delete_insert:
  "AList.restrict (- E) (AList.delete k al) = AList.restrict (- insert k E) al"
  by (induction al) (auto simp: AList.restrict_eq)

lemma cleanup_range_config [simp]: "config (cleanup_range now es hm) = config hm"
  by (induction es arbitrary: hm) auto

lemma cleanup_range_closed:
  "closed (cleanup_range now es hm) =
     closed hm @ map (\<lambda>(k, mh). (k, Handle mh)) (filter (\<lambda>(k, mh). After now (ExpiresAt mh)) es)"
  by (induction es arbitrary: hm) auto

lemma cleanup_range_handles:
  "handles (cleanup_range now es hm) = AList.restrict (- expired_keys now es) (handles hm)"
proof (induction es arbitrary: hm)
  case Nil
  show ?case by (simp add: expired_keys_def AList.restrict_eq)
next
  case (Cons e es)
  obtain k mh where e: "e = (k, mh)" by (cases e)
  show ?case
  proof (cases "After now (ExpiresAt mh)")
    case True
    have "expired_keys now (e # es) = insert k (expired_keys now es)"
      using True e by (simp add: expired_keys_def)
    then show ?thesis
      using True e Cons.IH by (simp add: restrict_delete_insert)
  next
    case False
    have "expired_keys now (e # es) = expired_keys now es"
      using False e by (simp add: expired_keys_def)
    then show ?thesis using False e Cons.IH by simp
  qed
qed

lemma restrict_expired_distinct:
  assumes "distinct (map fst es)"
  shows "AList.restrict (- expired_keys now es) es = filter (\<lambda>(k, mh). \<not> After now (ExpiresAt mh)) es"
proof -
  have "\<And>e. e \<in> set es \<Longrightarrow> (fst e \<in> expired_keys now es) = After now (ExpiresAt (snd e))"
  proof -
    fix e assume e: "e \<in> set es"
    show "(fst e \<in> expired_keys now es) = After now (ExpiresAt (snd e))"
    proof
      assume "fst e \<in> expired_keys now es"
      then obtain e' where e': "e' \<in> set es" "After now (ExpiresAt (snd e'))" "fst e' = fst e"
        by (auto simp: expired_keys_def)
      have "e' = e" using assms e e'(1,3) by (metis eq_key_imp_eq_value prod.collapse)
      then show "After now (ExpiresAt (snd e))" using e'(2) by simp
    next
      assume "After now (ExpiresAt (snd e))"
      then show "fst e \<in> expired_keys now es" using e by (auto simp: expired_keys_def)
    qed
  qed
  then show ?thesis
    unfolding AList.restrict_eq by (intro filter_cong) (auto simp: case_prod_beta)
qed

lemma cleanup_handles_filter:
  "distinct_keys hm \<Longrightarrow>
   handles (cleanup now hm) = filter (\<lambda>(k, mh). \<not> After now (ExpiresAt mh)) (handles hm)"
  by (simp add: cleanup_def cleanup_range_handles restrict_expired_distinct distinct_keys_def)

lemma cleanup_closed:
  "closed (cleanup now hm) =
     closed hm @ map (\<lambda>(k, mh). (k, Handle mh)) (filter (\<lambda>(k, mh). After now (ExpiresAt mh)) (handles hm))"
  by (simp add: cleanup_def cleanup_range_closed)

text \<open>Every manager that a history reaches from a new one has distinct keys.\<close>

lemma distinct_keys_exec: "distinct_keys hm \<Longrightarrow> distinct_keys (exec hclose hm c)"
proof -
  assume d: "distinct_keys hm"
  obtain now op where c: "c = (now, op)" by (cases c)
  show ?thesis unfolding c using d
    by (cases op)
       (auto simp: distinct_keys_def Register_def Get_def Renew_def Close_def cleanup_def
          cleanup_range_handles Let_def distinct_update distinct_delete distinct_restr
          split: option.splits)
qed

lemma distinct_keys_run:
  "distinct_keys hm \<Longrightarrow> distinct_keys (run hclose hm cs)"
  unfolding run_def by (induction cs arbitrary: hm) (simp_all add: distinct_keys_exec)

lemma distinct_keys_reachable: "distinct_keys (run hclose (NewHandleManager cfg) cs)"
  by (rule distinct_keys_run) (simp add: distinct_keys_def NewHandleManager_def Let_def)

section \<open>The lease invariant\<close>

lemma set_update_subset: "set (AList.update k v al) \<subseteq> insert (k, v) (set al)"
  by (induction al) auto

lemma set_delete_subset: "set (AList.delete k al) \<subseteq> set al"
  by (auto simp: AList.delete_eq)

lemma exec_config [simp]: "config (exec hclose hm c) = config hm"
proof -
  obtain now op where c: "c = (now, op)" by (cases c)
  show ?thesis unfolding c
    by (cases op)
       (simp_all add: Register_def Get_def Renew_def Close_def cleanup_def Let_def
          split: option.splits)
qed

lemma run_config [simp]: "config (run hclose hm cs) = config hm"
  unfolding run_def by (induction cs arbitrary: hm) simp_all

lemma lease_inv_update:
  "lease_inv hm \<Longrightarrow> lease_ok (MaxLease (config hm)) v \<Longrightarrow>
   lease_inv (hm\<lparr>handles := AList.update k v (handles hm)\<rparr>)"
  using set_update_subset [of k v "handles hm"] by (auto simp: lease_inv_def)

lemma lease_inv_delete:
  "lease_inv hm \<Longrightarrow>
   lease_inv (hm\<lparr>handles := AList.delete k (handles hm), closed := c\<rparr>) \<and>
   lease_inv (hm\<lparr>closed := c, handles := AList.delete k (handles hm)\<rparr>)"
  using set_delete_subset [of k "handles hm"] by (auto simp: lease_inv_def)

lemma lease_inv_lookup:
  "lease_inv hm \<Longrightarrow> map_of (handles hm) k = Some mh \<Longrightarrow> lease_ok (MaxLease (config hm)) mh"
  using map_of_SomeD [of "handles hm" k mh] by (force simp: lease_inv_def)

lemma lease_inv_Register: "lease_inv hm \<Longrightarrow> lease_inv (snd (Register newid now h p f l hm))"
  unfolding Register_def Let_def
  by (auto intro!: lease_inv_update simp: lease_ok_def)

lemma lease_inv_Get: "lease_inv hm \<Longrightarrow> lease_inv (snd (Get now k hm))"
  unfolding Get_def
  by (auto intro!: lease_inv_update simp: lease_inv_delete lease_ok_def
      dest: lease_inv_lookup split: option.splits)

lemma lease_inv_Renew: "lease_inv hm \<Longrightarrow> lease_inv (snd (Renew now k l hm))"
  unfolding Renew_def Let_def
  by (auto intro!: lease_inv_update simp: lease_inv_delete lease_ok_def
      dest: lease_inv_lookup split: option.splits)

lemma lease_inv_Close: "lease_inv hm \<Longrightarrow> lease_inv (snd (Close hclose k hm))"
  unfolding Close_def
  by (auto simp: lease_inv_delete split: option.splits)

lemma lease_inv_cleanup: "lease_inv hm \<Longrightarrow> lease_inv (cleanup now hm)"
  unfolding lease_inv_def cleanup_def
  by (auto simp: cleanup_range_handles AList.restrict_eq)

lemma lease_inv_exec: "lease_inv hm \<Longrightarrow> lease_inv (exec hclose hm c)"
proof -
  assume inv: "lease_inv hm"
  obtain now op where c: "c = (now, op)" by (cases c)
  show ?thesis unfolding c using inv
    by (cases op)
       (simp_all add: lease_inv_Register lease_inv_Get lease_inv_Renew lease_inv_Close
          lease_inv_cleanup)
qed

lemma lease_inv_run: "lease_inv hm \<Longrightarrow> lease_inv (run hclose hm cs)"
  unfolding run_def by (induction cs arbitrary: hm) (simp_all add: lease_inv_exec)

lemma lease_inv_New: "lease_inv (NewHandleManager cfg)"
  by (simp add: lease_inv_def NewHandleManager_def Let_def)

section \<open>The close log\<close>

lemma update_keys_present:
  "k \<in> set (map fst al) \<Longrightarrow> map fst (AList.update k v al) = map fst al"
  by (simp add: update_keys)

lemma close_inv_update_present:
  "close_inv hm used \<Longrightarrow> map_of (handles hm) k = Some mh \<Longrightarrow>
   close_inv (hm\<lparr>handles := AList.update k v (handles hm)\<rparr>) used"
proof -
  assume inv: "close_inv hm used" and look: "map_of (handles hm) k = Some mh"
  have "k \<in> set (map fst (handles hm))"
    using map_of_SomeD [OF look] by force
  then have "map fst (AList.update k v (handles hm)) = map fst (handles hm)"
    by (rule update_keys_present)
  then show ?thesis using inv by (simp add: close_inv_def)
qed

lemma close_inv_remove:
  assumes inv: "close_inv hm used" and look: "map_of (handles hm) k = Some mh"
  shows "close_inv (hm\<lparr>handles := AList.delete k (handles hm),
                        closed := closed hm @ [(k, h)]\<rparr>) used \<and>
         close_inv (hm\<lparr>closed := closed hm @ [(k, h)],
                        handles := AList.delete k (handles hm)\<rparr>) used"
proof -
  have k: "k \<in> set (map fst (handles hm))"
    using map_of_SomeD [OF look] by force
  have "k \<notin> set (map fst (closed hm))"
    using inv k by (auto simp: close_inv_def)
  then show ?thesis
    using inv k by (auto simp: close_inv_def delete_keys distinct_removeAll)
qed

lemma close_inv_mono: "close_inv hm used \<Longrightarrow> used \<subseteq> used' \<Longrightarrow> close_inv hm used'"
  by (auto simp: close_inv_def)

lemma close_inv_insert:
  assumes inv: "close_inv hm used" and fresh: "newid \<notin> used"
  shows "close_inv (hm\<lparr>handles := AList.update newid v (handles hm)\<rparr>) (insert newid used)"
  using inv fresh unfolding close_inv_def
  by (auto simp: dom_update distinct_update)

lemma close_inv_Register:
  assumes inv: "close_inv hm used" and fresh: "newid \<notin> used"
  shows "close_inv (snd (Register newid now h p f l hm)) (insert newid used)"
  unfolding Register_def Let_def
  using close_inv_insert [OF inv fresh] close_inv_mono [OF inv, of "insert newid used"]
  by auto

lemma close_inv_Get: "close_inv hm used \<Longrightarrow> close_inv (snd (Get now k hm)) used"
  unfolding Get_def
  by (auto simp: close_inv_remove close_inv_update_present split: option.splits)

lemma close_inv_Renew: "close_inv hm used \<Longrightarrow> close_inv (snd (Renew now k l hm)) used"
  unfolding Renew_def Let_def
  by (auto simp: close_inv_remove close_inv_update_present split: option.splits)

lemma close_inv_Close: "close_inv hm used \<Longrightarrow> close_inv (snd (Close hclose k hm)) used"
  unfolding Close_def
  by (auto simp: close_inv_remove split: option.splits)

lemma close_inv_cleanup:
  assumes inv: "close_inv hm used"
  shows "close_inv (cleanup now hm) used"
proof -
  let ?E = "\<lambda>(k, mh). After now (ExpiresAt mh)"
  let ?N = "\<lambda>(k, mh). \<not> After now (ExpiresAt mh)"
  have d: "distinct (map fst (handles hm))" using inv by (simp add: close_inv_def)
  have hs: "handles (cleanup now hm) = filter ?N (handles hm)"
    using d by (simp add: cleanup_handles_filter distinct_keys_def)
  have cs: "map fst (closed (cleanup now hm)) = map fst (closed hm) @ map fst (filter ?E (handles hm))"
    by (simp add: cleanup_closed comp_def case_prod_beta)
  have disj: "set (map fst (filter ?N (handles hm))) \<inter> set (map fst (filter ?E (handles hm))) = {}"
  proof (rule ccontr)
    assume "\<not> ?thesis"
    then obtain e1 e2 where e: "e1 \<in> set (handles hm)" "?N e1" "e2 \<in> set (handles hm)" "?E e2"
      "fst e1 = fst e2" by auto
    then have "e1 = e2" using d by (metis eq_key_imp_eq_value prod.collapse)
    then show False using e by (auto simp: case_prod_beta)
  qed
  have sub: "set (map fst (filter P (handles hm))) \<subseteq> set (map fst (handles hm))" for P
    by auto
  have "distinct (map fst (filter P (handles hm)))" for P
    using d by (rule distinct_map_filter)
  then show ?thesis
    using inv disj sub [of ?E] sub [of ?N] unfolding close_inv_def hs cs
    by (simp add: Int_Un_distrib) blast
qed

lemma close_inv_exec:
  assumes inv: "close_inv hm used" and fresh: "set (registered_ids [c]) \<inter> used = {}"
  shows "close_inv (exec hclose hm c) (used \<union> set (registered_ids [c]))"
proof -
  obtain now op where c: "c = (now, op)" by (cases c)
  show ?thesis
  proof (cases op)
    case (CallRegister newid h p f l)
    then show ?thesis using inv fresh c close_inv_Register [of hm used newid] by simp
  next
    case (CallGet k)
    then show ?thesis using inv c by (simp add: close_inv_Get)
  next
    case (CallRenew k l)
    then show ?thesis using inv c by (simp add: close_inv_Renew)
  next
    case (CallClose k)
    then show ?thesis using inv c by (simp add: close_inv_Close)
  next
    case CallCleanup
    then show ?thesis using inv c by (simp add: close_inv_cleanup)
  qed
qed

lemma registered_ids_Cons:
  "registered_ids (c # cs) = registered_ids [c] @ registered_ids cs"
proof -
  obtain now op where c: "c = (now, op)" by (cases c)
  show ?thesis unfolding c by (cases op) simp_all
qed

lemma close_inv_run:
  "close_inv hm used \<Longrightarrow> distinct (registered_ids cs) \<Longrightarrow> set (registered_ids cs) \<inter> used = {} \<Longrightarrow>
   close_inv (run hclose hm cs) (used \<union> set (registered_ids cs))"
proof (induction cs arbitrary: hm used)
  case Nil
  then show ?case by (simp add: run_def)
next
  case (Cons c cs)
  have split: "registered_ids (c # cs) = registered_ids [c] @ registered_ids cs"
    by (rule registered_ids_Cons)
  have step: "close_inv (exec hclose hm c) (used \<union> set (registered_ids [c]))"
    using Cons.prems split by (intro close_inv_exec) auto
  have "close_inv (run hclose (exec hclose hm c) cs)
          ((used \<union> set (registered_ids [c])) \<union> set (registered_ids cs))"
    using Cons.prems split by (intro Cons.IH [OF step]) auto
  then show ?case by (simp add: run_def split Un_assoc)
qed

lemma close_inv_New: "close_inv (NewHandleManager cfg) {}"
  by (simp add: close_inv_def NewHandleManager_def Let_def)

lemma run_close_inv:
  "distinct (registered_ids cs) \<Longrightarrow>
   close_inv (run hclose (NewHandleManager cfg) cs) (set (registered_ids cs))"
  using close_inv_run [OF close_inv_New, of cs hclose cfg] by simp

section \<open>The handle stored under an id\<close>

lemma handle_at_cleanup:
  "handle_at (cleanup now hm) k = (if k \<in> expired_keys now (handles hm) then None else handle_at hm k)"
  by (simp add: handle_at_def cleanup_def cleanup_range_handles restr_conv' restrict_map_def)

lemma handle_at_exec:
  assumes "k \<notin> set (registered_ids [c])"
  shows "handle_at (exec hclose hm c) k = None \<or> handle_at (exec hclose hm c) k = handle_at hm k"
proof -
  obtain now op where c: "c = (now, op)" by (cases c)
  show ?thesis
  proof (cases op)
    case (CallRegister newid h p f l)
    then show ?thesis using assms c
      by (simp add: handle_at_def Register_def Let_def update_conv')
  next
    case (CallGet k')
    then show ?thesis using c
      by (cases "k' = k")
         (auto simp: handle_at_def Get_def update_conv' delete_conv' split: option.splits)
  next
    case (CallRenew k' l)
    then show ?thesis using c
      by (cases "k' = k")
         (auto simp: handle_at_def Renew_def Let_def update_conv' delete_conv' split: option.splits)
  next
    case (CallClose k')
    then show ?thesis using c
      by (cases "k' = k")
         (auto simp: handle_at_def Close_def delete_conv' split: option.splits)
  next
    case CallCleanup
    then show ?thesis using c by (simp add: handle_at_cleanup)
  qed
qed

lemma handle_at_run:
  "k \<notin> set (registered_ids cs) \<Longrightarrow>
   handle_at (run hclose hm cs) k = None \<or> handle_at (run hclose hm cs) k = handle_at hm k"
proof (induction cs arbitrary: hm)
  case Nil
  then show ?case by (simp add: run_def)
next
  case (Cons c cs)
  have split: "registered_ids (c # cs) = registered_ids [c] @ registered_ids cs"
    by (rule registered_ids_Cons)
  have c: "k \<notin> set (registered_ids [c])" and cs: "k \<notin> set (registered_ids cs)"
    using Cons.prems split by auto
  have run: "run hclose hm (c # cs) = run hclose (exec hclose hm c) cs"
    by (simp add: run_def)
  show ?case
    using Cons.IH [OF cs, of "exec hclose hm c"] handle_at_exec [OF c, of hclose hm]
    unfolding run by (cases "handle_at hm k") auto
qed

lemma absent_run:
  assumes "k \<notin> set (registered_ids cs)" and "map_of (handles hm) k = None"
  shows "map_of (handles (run hclose hm cs)) k = None"
  using handle_at_run [OF assms(1), of hclose hm] assms(2) by (simp add: handle_at_def)

lemma Register_handle_at:
  "fst (Register newid now h p f l hm) = Inr r \<Longrightarrow>
   handle_at (snd (Register newid now h p f l hm)) newid = Some h"
  by (auto simp: Register_def Let_def handle_at_def update_conv' split: if_splits)

section \<open>Reads through a local FUSE handle\<close>

lemma byte_range_take_drop:
  "hi \<le> length buf \<Longrightarrow> byte_range buf lo hi = take (hi - lo) (drop lo buf)"
  unfolding byte_range_def by (rule nth_equalityI) auto

lemma int64_id: "- (2 ^ 63) \<le> x \<Longrightarrow> x < 2 ^ 63 \<Longrightarrow> int64 x = x"
  unfolding int64_def by (simp add: mod_pos_pos_trivial)

lemma requested_portion_range:
  assumes "0 \<le> offset" "0 \<le> sz" "offset + sz < 2 ^ 63"
  shows "requested_portion buf offset sz =
           ReadOk (byte_range buf (nat offset) (min (nat (offset + sz)) (length buf)))"
proof (cases "int (length buf) \<le> offset")
  case True
  then have "min (nat (offset + sz)) (length buf) \<le> nat offset"
    using assms by auto
  then show ?thesis using True by (simp add: requested_portion_def byte_range_def)
next
  case False
  have w: "int64 (offset + sz) = offset + sz"
    using assms by (intro int64_id) auto
  show ?thesis
  proof (cases "int (length buf) < offset + sz")
    case True
    then have m: "min (nat (offset + sz)) (length buf) = length buf" by auto
    show ?thesis
      using False True assms
      by (simp add: requested_portion_def w slice_expr_def m byte_range_take_drop nat_diff_distrib')
  next
    case le: False
    then have m: "min (nat (offset + sz)) (length buf) = nat (offset + sz)" using assms by auto
    have "nat (offset + sz) \<le> length buf" using le assms by auto
    then show ?thesis
      using False le assms
      by (simp add: requested_portion_def w slice_expr_def m byte_range_take_drop nat_diff_distrib' nat_add_distrib Let_def)
  qed
qed

lemma Fuse_Read_buffered:
  "fhandles hm fh = Some info \<Longrightarrow> htype info = handleTypeLocal \<Longrightarrow> readBuffer info = Some buf \<Longrightarrow>
   Fuse_Read resp fh offset sz hm = (requested_portion buf offset sz, hm)"
  by (simp add: Fuse_Read_def Read_lookup_def Read_finish_def)

lemma Fuse_Reads_buffered:
  assumes "fhandles hm fh = Some info" "htype info = handleTypeLocal" "readBuffer info = Some buf"
    and "\<forall>(resp, off, n) \<in> set rs. 0 \<le> off \<and> 0 \<le> n \<and> off + n < 2 ^ 63"
  shows "Fuse_Reads fh rs hm =
     (map (\<lambda>(resp, off, n). ReadOk (byte_range buf (nat off) (min (nat (off + n)) (length buf)))) rs,
      hm)"
  using assms(4)
proof (induction rs)
  case Nil
  show ?case by simp
next
  case (Cons r rs)
  obtain resp off n where r: "r = (resp, off, n)" by (cases r)
  have ok: "0 \<le> off" "0 \<le> n" "off + n < 2 ^ 63"
    using Cons.prems r by auto
  have rest: "\<forall>(resp, off, n) \<in> set rs. 0 \<le> off \<and> 0 \<le> n \<and> off + n < 2 ^ 63"
    using Cons.prems by auto
  show ?case
    unfolding r
    using Cons.IH [OF rest] Fuse_Read_buffered [OF assms(1-3), of resp off n]
      requested_portion_range [OF ok, of buf]
    by simp
qed

lemma Fuse_Read_first:
  assumes "fhandles hm fh = Some info" "htype info = handleTypeLocal" "readBuffer info = None"
  shows "Fuse_Read (Inr (Some payload)) fh offset sz hm =
     (requested_portion payload offset sz,
      hm\<lparr>client_calls := client_calls hm @ [ClientRead (path info) 0 (- 1)],
         fhandles := (fhandles hm)(fh \<mapsto> info\<lparr>readBuffer := Some payload\<rparr>)\<rparr>)"
  using assms by (simp add: Fuse_Read_def Read_lookup_def Read_finish_def Let_def bytes_of_def)

lemma Fuse_Read_calls_once:
  assumes "fhandles hm fh = Some info" "htype info = handleTypeLocal" "readBuffer info = None"
  shows "client_calls (snd (Fuse_Read resp fh offset sz hm)) =
     client_calls hm @ [ClientRead (path info) 0 (- 1)]"
  using assms
  by (cases resp)
     (simp_all add: Fuse_Read_def Read_lookup_def Read_finish_def Let_def)

lemma Fuse_Open_local:
  "Fuse_Open (Inl ErrNotSupported) p fl md hm =
     (Inr (nextHandle hm + 1),
      hm\<lparr>nextHandle := nextHandle hm + 1,
         client_calls := client_calls hm @ [ClientOpenHandle p fl md],
         fhandles := (fhandles hm)(nextHandle hm + 1 \<mapsto>
           \<lparr>htype = handleTypeLocal, agfsHandle = 0, path = p, flags = fl, mode = md,
            readBuffer = None\<rparr>)\<rparr>)"
  by (simp add: Fuse_Open_def Let_def)

text \<open>
  Two cases in which the buffer stays nil, so that the next read of the handle
  calls the client again: the client returns a nil slice with a nil error, or the
  fetch fails.
\<close>

lemma Fuse_Read_nil_payload:
  assumes "fhandles hm fh = Some info" "htype info = handleTypeLocal" "readBuffer info = None"
  shows "Fuse_Read (Inr None) fh offset sz hm =
     (requested_portion [] offset sz,
      hm\<lparr>client_calls := client_calls hm @ [ClientRead (path info) 0 (- 1)],
         fhandles := (fhandles hm)(fh \<mapsto> info\<lparr>readBuffer := None\<rparr>)\<rparr>)"
  using assms by (simp add: Fuse_Read_def Read_lookup_def Read_finish_def Let_def bytes_of_def)

lemma Fuse_Read_failed_fetch:
  assumes "fhandles hm fh = Some info" "htype info = handleTypeLocal" "readBuffer info = None"
  shows "Fuse_Read (Inl err) fh offset sz hm =
     (ReadErr (Wrapped ''failed to read file'' err),
      hm\<lparr>client_calls := client_calls hm @ [ClientRead (path info) 0 (- 1)]\<rparr>)"
  using assms by (simp add: Fuse_Read_def Read_lookup_def Read_finish_def Let_def)

section \<open>The indexing status\<close>


lemma marker_add:
  "indexing_marker (addIndexingTask ns dg fname now v) ns' dg' =
     (if ns' = ns \<and> dg' = dg then Some \<lparr>FileName = fname, StartTime = now\<rparr>
      else indexing_marker v ns' dg')"
  by (auto simp: addIndexingTask_def indexing_marker_def update_conv' Let_def split: option.splits)

lemma removeIndexingTask_queue [simp]:
  "indexQueue (removeIndexingTask ns dg v) = indexQueue v"
  "supervisors (removeIndexingTask ns dg v) = supervisors v"
  "shutdown (removeIndexingTask ns dg v) = shutdown v"
  "indexQueueClosed (removeIndexingTask ns dg v) = indexQueueClosed v"
  "indexQueueCap (removeIndexingTask ns dg v) = indexQueueCap v"
  by (simp_all add: removeIndexingTask_def split: option.splits)

lemma addIndexingTask_queue [simp]:
  "indexQueue (addIndexingTask ns dg fname now v) = indexQueue v"
  "supervisors (addIndexingTask ns dg fname now v) = supervisors v"
  "shutdown (addIndexingTask ns dg fname now v) = shutdown v"
  "indexQueueClosed (addIndexingTask ns dg fname now v) = indexQueueClosed v"
  "indexQueueCap (addIndexingTask ns dg fname now v) = indexQueueCap v"
  by (simp_all add: addIndexingTask_def Let_def)

section \<open>Capacity\<close>

text \<open>
  C3. \<^verbatim>\<open>Register\<close> fails when the table holds at least \<^verbatim>\<open>MaxHandles\<close>
  entries, and a registration that fails, for whatever arguments, returns the
  manager as it was: no record added, every record and the close log unchanged.
\<close>

theorem Register_capacity:
  "(MaxHandles (config hm) \<le> Count hm \<longrightarrow>
      Register newid now h p f l hm = (Inl (ErrMaxHandles (MaxHandles (config hm))), hm)) \<and>
   (\<forall>e. fst (Register newid now h p f l hm) = Inl e \<longrightarrow>
      snd (Register newid now h p f l hm) = hm \<and> MaxHandles (config hm) \<le> Count hm)"
  by (simp add: Register_def Count_def Let_def)

theorem Register_capacity_witness:
  "MaxHandles (config three_handles) \<le> Count three_handles \<and>
   Register ''h_d'' 3 (14::nat) ''/test/file.txt'' 2 0 three_handles =
     (Inl (ErrMaxHandles 3), three_handles) \<and>
   snd (Register ''h_d'' 3 (14::nat) ''/test/file.txt'' 2 0 three_handles) = three_handles"
  using Register_capacity [of three_handles "''h_d''" 3 14 "''/test/file.txt''" 2 0]
  by (simp add: three_handles_eq Count_def)

section \<open>Lookup\<close>

text \<open>
  C1. Let a registration of handle \<open>h\<close> succeed with id \<open>newid\<close>, let any
  history follow that draws other ids, and let the record \<open>mh\<close> of \<open>newid\<close>
  still be in the table. Then the record holds \<open>h\<close>. If it has not expired at
  \<open>now\<close>, \<^verbatim>\<open>Get\<close> returns \<open>h\<close> and leaves the record with last access
  \<open>now\<close> and expiry \<open>now\<close> plus its lease duration, and calls no close. If it
  has expired (\<open>now\<close> after its expiry), \<^verbatim>\<open>Get\<close> returns not-found, the
  close of \<open>h\<close> is called and the record is removed.
\<close>

theorem Get_registered_handle:
  assumes reg: "fst (Register newid t0 h p f l hm0) = Inr r"
    and fresh: "newid \<notin> set (registered_ids cs)"
    and present: "map_of (handles (run hclose (snd (Register newid t0 h p f l hm0)) cs)) newid = Some mh"
  shows "Handle mh = h \<and>
    (\<not> After now (ExpiresAt mh) \<longrightarrow>
       Get now newid (run hclose (snd (Register newid t0 h p f l hm0)) cs) =
         (Inr h, (run hclose (snd (Register newid t0 h p f l hm0)) cs)
            \<lparr>handles := AList.update newid
               (mh\<lparr>LastAccess := now, ExpiresAt := Add now (LeaseTime mh)\<rparr>)
               (handles (run hclose (snd (Register newid t0 h p f l hm0)) cs))\<rparr>) \<and>
       map_of (handles (snd (Get now newid (run hclose (snd (Register newid t0 h p f l hm0)) cs)))) newid =
         Some (mh\<lparr>LastAccess := now, ExpiresAt := Add now (LeaseTime mh)\<rparr>)) \<and>
    (After now (ExpiresAt mh) \<longrightarrow>
       Get now newid (run hclose (snd (Register newid t0 h p f l hm0)) cs) =
         (Inl ErrNotFound, (run hclose (snd (Register newid t0 h p f l hm0)) cs)
            \<lparr>handles := AList.delete newid (handles (run hclose (snd (Register newid t0 h p f l hm0)) cs)),
             closed := closed (run hclose (snd (Register newid t0 h p f l hm0)) cs) @ [(newid, h)]\<rparr>) \<and>
       map_of (handles (snd (Get now newid (run hclose (snd (Register newid t0 h p f l hm0)) cs)))) newid = None)"
proof -
  let ?hm1 = "snd (Register newid t0 h p f l hm0)"
  let ?hm = "run hclose ?hm1 cs"
  have "handle_at ?hm1 newid = Some h"
    using reg by (rule Register_handle_at)
  moreover have "handle_at ?hm newid = Some (Handle mh)"
    using present by (simp add: handle_at_def)
  ultimately have h: "Handle mh = h"
    using handle_at_run [OF fresh, of hclose ?hm1] by auto
  show ?thesis
    using h present by (simp add: Get_def update_conv' delete_conv')
qed

theorem Get_registered_handle_witness:
  "fst (Register ''h_a'' 0 (11::nat) ''/test/file.txt'' 2 0 (NewHandleManager test_config)) =
     Inr (''h_a'', 100000000) \<and>
   ''h_a'' \<notin> set (registered_ids get_history) \<and>
   map_of (handles (run (\<lambda>_. None)
     (snd (Register ''h_a'' 0 (11::nat) ''/test/file.txt'' 2 0 (NewHandleManager test_config)))
     get_history)) ''h_a'' = Some mh_refreshed \<and>
   Handle mh_refreshed = 11 \<and>
   \<not> After 120000000 (ExpiresAt mh_refreshed) \<and>
   fst (Get 120000000 ''h_a'' (run (\<lambda>_. None)
     (snd (Register ''h_a'' 0 (11::nat) ''/test/file.txt'' 2 0 (NewHandleManager test_config)))
     get_history)) = Inr 11 \<and>
   map_of (handles (snd (Get 120000000 ''h_a'' (run (\<lambda>_. None)
     (snd (Register ''h_a'' 0 (11::nat) ''/test/file.txt'' 2 0 (NewHandleManager test_config)))
     get_history)))) ''h_a'' =
     Some (mh_refreshed\<lparr>LastAccess := 120000000, ExpiresAt := 220000000\<rparr>) \<and>
   After 250000000 (ExpiresAt mh_refreshed) \<and>
   Get 250000000 ''h_a'' (run (\<lambda>_. None)
     (snd (Register ''h_a'' 0 (11::nat) ''/test/file.txt'' 2 0 (NewHandleManager test_config)))
     get_history) =
     (Inl ErrNotFound,
      \<lparr>handles = [],
       config = \<lparr>DefaultLease = 100000000, MaxLease = 500000000, MaxHandles = 3,
                  CleanupInterval = 1000000000\<rparr>,
       closed = [(''h_a'', 11)]\<rparr>)"
proof -
  have reg: "fst (Register ''h_a'' 0 (11::nat) ''/test/file.txt'' 2 0 (NewHandleManager test_config)) =
     Inr (''h_a'', 100000000)"
    by (simp add: Register_first)
  have fresh: "''h_a'' \<notin> set (registered_ids get_history)"
    by (simp add: get_history_def)
  have present: "map_of (handles (run (\<lambda>_. None)
     (snd (Register ''h_a'' 0 (11::nat) ''/test/file.txt'' 2 0 (NewHandleManager test_config)))
     get_history)) ''h_a'' = Some mh_refreshed"
    by (simp add: Register_first get_history_run)
  note live = Get_registered_handle [OF reg fresh present, of 120000000]
  note dead = Get_registered_handle [OF reg fresh present, of 250000000]
  have t: "\<not> After 120000000 (ExpiresAt mh_refreshed)" "After 250000000 (ExpiresAt mh_refreshed)"
    "Add 120000000 (LeaseTime mh_refreshed) = 220000000"
    by (simp_all add: mh_refreshed_def After_def Add_def)
  show ?thesis
    using reg fresh present live dead t
    by (simp add: Register_first get_history_run)
qed

section \<open>Closing at most once\<close>

text \<open>
  C2. In every history from a new manager whose registrations draw pairwise
  distinct ids, whatever the calls of close, get, renew and the reaper in it, no
  id occurs twice in the log of plugin closes. A \<^verbatim>\<open>Close\<close> of an id present
  in the table calls the plugin close once, returns what that call returns, and
  removes the record whatever it returns; after it, as long as the id is not
  drawn again, every \<^verbatim>\<open>Close\<close> of the id returns not-found and leaves the
  manager, its close log included, unchanged.
\<close>

theorem plugin_close_at_most_once:
  assumes "distinct (registered_ids cs)"
  shows "distinct (map fst (closed (run hclose (NewHandleManager cfg) cs))) \<and>
    (\<forall>mh. map_of (handles (run hclose (NewHandleManager cfg) cs)) k = Some mh \<longrightarrow>
       Close hclose k (run hclose (NewHandleManager cfg) cs) =
         (hclose (Handle mh),
          (run hclose (NewHandleManager cfg) cs)
            \<lparr>closed := closed (run hclose (NewHandleManager cfg) cs) @ [(k, Handle mh)],
             handles := AList.delete k (handles (run hclose (NewHandleManager cfg) cs))\<rparr>) \<and>
       map_of (handles (snd (Close hclose k (run hclose (NewHandleManager cfg) cs)))) k = None) \<and>
    (\<forall>cs'. k \<notin> set (registered_ids cs') \<longrightarrow>
       Close hclose k (run hclose (snd (Close hclose k (run hclose (NewHandleManager cfg) cs))) cs') =
         (Some ErrNotFound, run hclose (snd (Close hclose k (run hclose (NewHandleManager cfg) cs))) cs'))"
proof -
  let ?hm = "run hclose (NewHandleManager cfg) cs"
  have 1: "distinct (map fst (closed ?hm))"
    using run_close_inv [OF assms, of hclose cfg] by (simp add: close_inv_def)
  have 2: "Close hclose k ?hm =
         (hclose (Handle mh), ?hm\<lparr>closed := closed ?hm @ [(k, Handle mh)],
             handles := AList.delete k (handles ?hm)\<rparr>) \<and>
       map_of (handles (snd (Close hclose k ?hm))) k = None"
    if "map_of (handles ?hm) k = Some mh" for mh
    using that by (simp add: Close_def delete_conv')
  have gone: "map_of (handles (snd (Close hclose k ?hm))) k = None"
    by (simp add: Close_def delete_conv' split: option.splits)
  have 3: "Close hclose k (run hclose (snd (Close hclose k ?hm)) cs') =
         (Some ErrNotFound, run hclose (snd (Close hclose k ?hm)) cs')"
    if "k \<notin> set (registered_ids cs')" for cs'
    using absent_run [OF that gone, of hclose] by (simp add: Close_def)
  show ?thesis using 1 2 3 by blast
qed

theorem plugin_close_at_most_once_witness:
  "distinct (registered_ids close_history) \<and>
   closed (run failing_close (NewHandleManager test_config) close_history) =
     [(''h_c'', 13), (''h_b'', 12)] \<and>
   map_of (handles (run failing_close (NewHandleManager test_config) close_history)) ''h_a'' =
     Some mh_a \<and>
   fst (Close failing_close ''h_a'' (run failing_close (NewHandleManager test_config) close_history)) =
     Some (ErrHandle ''close failed'') \<and>
   closed (snd (Close failing_close ''h_a''
       (run failing_close (NewHandleManager test_config) close_history))) =
     [(''h_c'', 13), (''h_b'', 12), (''h_a'', 11)] \<and>
   handles (snd (Close failing_close ''h_a''
       (run failing_close (NewHandleManager test_config) close_history))) = [] \<and>
   ''h_a'' \<notin> set (registered_ids later_history) \<and>
   fst (Close failing_close ''h_a'' (run failing_close (snd (Close failing_close ''h_a''
       (run failing_close (NewHandleManager test_config) close_history))) later_history)) =
     Some ErrNotFound \<and>
   closed (snd (Close failing_close ''h_a'' (run failing_close (snd (Close failing_close ''h_a''
       (run failing_close (NewHandleManager test_config) close_history))) later_history))) =
     [(''h_c'', 13), (''h_b'', 12), (''h_a'', 11)]"
proof -
  have d: "distinct (registered_ids close_history)"
    by (simp add: close_history_def)
  have l: "''h_a'' \<notin> set (registered_ids later_history)"
    by (simp add: later_history_def)
  have p: "map_of (handles (run failing_close (NewHandleManager test_config) close_history)) ''h_a'' =
     Some mh_a"
    by (simp add: close_history_run)
  note th = plugin_close_at_most_once [OF d, of failing_close test_config "''h_a''"]
  note first = th [THEN conjunct2, THEN conjunct1, THEN spec, THEN mp, OF p]
  note again = th [THEN conjunct2, THEN conjunct2, THEN spec, THEN mp, OF l]
  have c: "Close failing_close ''h_a'' (run failing_close (NewHandleManager test_config) close_history) =
      (Some (ErrHandle ''close failed''),
       \<lparr>handles = [],
        config = \<lparr>DefaultLease = 100000000, MaxLease = 500000000, MaxHandles = 3,
                   CleanupInterval = 1000000000\<rparr>,
        closed = [(''h_c'', 13), (''h_b'', 12), (''h_a'', 11)]\<rparr>)"
    using first by (simp add: close_history_run mh_a_def failing_close_def)
  have r: "run failing_close
       \<lparr>handles = [],
        config = \<lparr>DefaultLease = 100000000, MaxLease = 500000000, MaxHandles = 3,
                   CleanupInterval = 1000000000\<rparr>,
        closed = [(''h_c'', 13), (''h_b'', 12), (''h_a'', 11)]\<rparr> later_history =
       \<lparr>handles = [],
        config = \<lparr>DefaultLease = 100000000, MaxLease = 500000000, MaxHandles = 3,
                   CleanupInterval = 1000000000\<rparr>,
        closed = [(''h_c'', 13), (''h_b'', 12), (''h_a'', 11)]\<rparr>"
    by (simp add: later_history_def run_def cleanup_def Get_def)
  show ?thesis
    unfolding c fst_conv snd_conv r
    using d l p again [unfolded c fst_conv snd_conv r] by (simp add: close_history_run)
qed

section \<open>Lease invariant\<close>

text \<open>
  C4. For every configuration and every history from a new manager, each record
  in the table has its expiry equal to its last access plus its lease duration,
  and its lease duration at most the maximum lease of the manager's
  configuration.
\<close>

theorem lease_invariant:
  "\<forall>(k, mh) \<in> set (handles (run hclose (NewHandleManager cfg) cs)).
      ExpiresAt mh = Add (LastAccess mh) (LeaseTime mh) \<and>
      LeaseTime mh \<le> MaxLease (config (run hclose (NewHandleManager cfg) cs))"
  using lease_inv_run [OF lease_inv_New, of hclose cfg cs]
  unfolding lease_inv_def lease_ok_def by auto

theorem lease_invariant_witness:
  "handles (run (\<lambda>_. None) (NewHandleManager test_config) renew_history) =
     [(''h_a'', \<lparr>Handle = 11, Path = ''/test/file.txt'', Flags = 2, LeaseTime = 500000000,
                 ExpiresAt = 540000000, CreatedAt = 0, LastAccess = 40000000\<rparr>)] \<and>
   (540000000 :: int) = Add 40000000 500000000 \<and>
   MaxLease (config (run (\<lambda>_. None) (NewHandleManager test_config) renew_history)) = 500000000"
proof -
  have ev: "run (\<lambda>_. None) (NewHandleManager test_config) renew_history =
     \<lparr>handles = [(''h_a'', \<lparr>Handle = 11, Path = ''/test/file.txt'', Flags = 2, LeaseTime = 500000000,
                 ExpiresAt = 540000000, CreatedAt = 0, LastAccess = 40000000\<rparr>)],
      config = \<lparr>DefaultLease = 100000000, MaxLease = 500000000, MaxHandles = 3,
                 CleanupInterval = 1000000000\<rparr>,
      closed = []\<rparr>"
    by (simp add: renew_history_def run_def NewHandleManager_def test_config_def Register_def
        Get_def Renew_def time_defs)
  show ?thesis
    using lease_invariant [of "\<lambda>_. None" test_config renew_history]
    by (simp add: ev Add_def)
qed

section \<open>Reaper\<close>

text \<open>
  C5, at the boundary. A record whose expiry equals the instant of the
  tick is not after-expiry for \<^verbatim>\<open>now.After(mh.ExpiresAt)\<close>: it stays in the
  table, with an expiry that is not greater than \<open>now\<close>, and is not closed.
\<close>

theorem cleanup_boundary_counterexample:
  "map_of (handles (cleanup 100000000 one_handle)) ''h_a'' = Some mh_a \<and>
   ExpiresAt mh_a = 100000000 \<and>
   \<not> ExpiresAt mh_a > 100000000 \<and>
   closed (cleanup 100000000 one_handle) = []"
  by (simp add: one_handle_eq cleanup_def mh_a_def After_def)

text \<open>
  C5, with the bound that holds. A tick of the reaper at \<open>now\<close> removes exactly the records with
  \<open>now\<close> greater than their expiry, calls the plugin close on exactly those, in
  the order of the range, and every record that remains has an expiry greater
  than or equal to \<open>now\<close>.
\<close>

theorem cleanup_removes_expired:
  assumes "distinct_keys hm"
  shows "handles (cleanup now hm) = filter (\<lambda>(k, mh). \<not> now > ExpiresAt mh) (handles hm) \<and>
     closed (cleanup now hm) =
       closed hm @ map (\<lambda>(k, mh). (k, Handle mh)) (filter (\<lambda>(k, mh). now > ExpiresAt mh) (handles hm)) \<and>
     (\<forall>(k, mh) \<in> set (handles (cleanup now hm)). ExpiresAt mh \<ge> now)"
  using assms by (auto simp: cleanup_handles_filter cleanup_closed After_def)

theorem cleanup_removes_expired_witness:
  "distinct_keys three_handles \<and>
   handles (cleanup 100000001 three_handles) = tl (handles three_handles) \<and>
   closed (cleanup 100000001 three_handles) = [(''h_a'', 11)] \<and>
   map (ExpiresAt \<circ> snd) (handles (cleanup 100000001 three_handles)) = [100000001, 100000002]"
  using cleanup_removes_expired [of three_handles 100000001]
  by (simp add: three_handles_eq distinct_keys_def)

section \<open>Lease clamping\<close>

text \<open>
  C6. In a \<^verbatim>\<open>Register\<close> that succeeds, a requested lease of zero becomes the
  default lease and is then capped by the maximum lease, and a positive request
  above the maximum lease becomes the maximum lease. In a \<^verbatim>\<open>Renew\<close> of a
  record that has not expired, a lease of zero becomes the record's lease
  duration, capped likewise, and a positive request above the maximum lease
  becomes the maximum lease. In each case the lease is stored in the record and
  the expiry returned is \<open>now\<close> plus that lease.
\<close>

theorem lease_clamping:
  "(Count hm < MaxHandles (config hm) \<longrightarrow>
      fst (Register newid now h p f 0 hm) =
        Inr (newid, Add now (min (DefaultLease (config hm)) (MaxLease (config hm)))) \<and>
      map_option LeaseTime (map_of (handles (snd (Register newid now h p f 0 hm))) newid) =
        Some (min (DefaultLease (config hm)) (MaxLease (config hm))) \<and>
      (0 < l \<and> MaxLease (config hm) < l \<longrightarrow>
         fst (Register newid now h p f l hm) = Inr (newid, Add now (MaxLease (config hm))) \<and>
         map_option LeaseTime (map_of (handles (snd (Register newid now h p f l hm))) newid) =
           Some (MaxLease (config hm)))) \<and>
   (map_of (handles hm) k = Some mh \<and> \<not> After now (ExpiresAt mh) \<longrightarrow>
      fst (Renew now k 0 hm) = Inr (Add now (min (LeaseTime mh) (MaxLease (config hm)))) \<and>
      map_of (handles (snd (Renew now k 0 hm))) k =
        Some (mh\<lparr>LeaseTime := min (LeaseTime mh) (MaxLease (config hm)),
                  ExpiresAt := Add now (min (LeaseTime mh) (MaxLease (config hm))),
                  LastAccess := now\<rparr>) \<and>
      (0 < l \<and> MaxLease (config hm) < l \<longrightarrow>
         fst (Renew now k l hm) = Inr (Add now (MaxLease (config hm))) \<and>
         map_of (handles (snd (Renew now k l hm))) k =
           Some (mh\<lparr>LeaseTime := MaxLease (config hm),
                     ExpiresAt := Add now (MaxLease (config hm)),
                     LastAccess := now\<rparr>)))"
  by (simp add: Register_def Renew_def Count_def Let_def update_conv' min_def)

theorem lease_clamping_witness:
  "Count (NewHandleManager test_config :: nat HandleManager) < MaxHandles (config (NewHandleManager test_config :: nat HandleManager)) \<and>
   fst (Register ''h_a'' 0 (11::nat) ''/test/file.txt'' 2 0 (NewHandleManager test_config)) =
     Inr (''h_a'', 100000000) \<and>
   fst (Register ''h_a'' 0 (11::nat) ''/test/file.txt'' 2 (3600 * second) (NewHandleManager test_config)) =
     Inr (''h_a'', 500000000) \<and>
   map_of (handles one_handle) ''h_a'' = Some mh_a \<and> \<not> After 50000000 (ExpiresAt mh_a) \<and>
   fst (Renew 50000000 ''h_a'' 0 one_handle) = Inr 150000000 \<and>
   fst (Renew 50000000 ''h_a'' (3600 * second) one_handle) = Inr 550000000 \<and>
   map_option LeaseTime (map_of (handles (snd (Renew 50000000 ''h_a'' (3600 * second) one_handle))) ''h_a'') =
     Some 500000000"
proof -
  note th = lease_clamping [where hm = "NewHandleManager test_config :: nat HandleManager"
      and newid = "''h_a''" and now = 0 and h = 11 and p = "''/test/file.txt''" and f = 2
      and l = "3600 * second"]
  have c: "config (NewHandleManager test_config :: nat HandleManager) =
      \<lparr>DefaultLease = 100000000, MaxLease = 500000000, MaxHandles = 3,
                 CleanupInterval = 1000000000\<rparr>"
    "handles (NewHandleManager test_config :: nat HandleManager) = []"
    by (simp_all add: NewHandleManager_def test_config_def time_defs)
  note th2 = lease_clamping [where hm = one_handle and k = "''h_a''" and mh = mh_a
      and now = 50000000 and l = "3600 * second"]
  show ?thesis
    using th th2
    by (simp add: c Count_def one_handle_eq) (simp add: mh_a_def time_defs)
qed

section \<open>Count and List\<close>

text \<open>
  C10. \<^verbatim>\<open>Count\<close> is the number of records in the table, expired or not.
  \<^verbatim>\<open>List\<close> returns, in the order of the range, the records of the table whose
  expiry is after \<open>now\<close> and no other: a record is listed exactly when it is in
  the table with \<open>now\<close> before its expiry, and no expired record is listed. So
  the length of the list is at most the count, and less when some record has
  expired.
\<close>

theorem Count_ge_List:
  "Count hm = int (length (handles hm)) \<and>
   List now hm = map snd (filter (\<lambda>(k, mh). now < ExpiresAt mh) (handles hm)) \<and>
   (\<forall>mh. mh \<in> set (List now hm) \<longleftrightarrow>
      (\<exists>k. (k, mh) \<in> set (handles hm)) \<and> now < ExpiresAt mh) \<and>
   (\<forall>(k, mh) \<in> set (handles hm). After now (ExpiresAt mh) \<longrightarrow> mh \<notin> set (List now hm)) \<and>
   int (length (List now hm)) \<le> Count hm \<and>
   ((\<exists>(k, mh) \<in> set (handles hm). After now (ExpiresAt mh)) \<longrightarrow>
      int (length (List now hm)) < Count hm)"
proof -
  have less: "length (filter (\<lambda>(k, mh). Before now (ExpiresAt mh)) (handles hm)) < length (handles hm)"
    if "(k, mh) \<in> set (handles hm)" "After now (ExpiresAt mh)" for k mh
    using that by (intro length_filter_less[of "(k, mh)"]) (auto simp: After_def Before_def)
  have mem: "mh \<in> set (List now hm) \<longleftrightarrow>
      (\<exists>k. (k, mh) \<in> set (handles hm)) \<and> now < ExpiresAt mh" for mh
    by (force simp: List_def Before_def)
  have eq: "List now hm = map snd (filter (\<lambda>(k, mh). now < ExpiresAt mh) (handles hm))"
    by (simp add: List_def Before_def)
  have gone: "mh \<notin> set (List now hm)" if "After now (ExpiresAt mh)" for mh
    using that mem by (simp add: After_def)
  have le: "int (length (List now hm)) \<le> Count hm"
    by (simp add: List_def Count_def)
  have lt: "int (length (List now hm)) < Count hm"
    if "\<exists>(k, mh) \<in> set (handles hm). After now (ExpiresAt mh)"
    using that less by (auto simp: List_def Count_def)
  show ?thesis
    using mem eq gone le lt by (simp add: Count_def)
qed

theorem Count_ge_List_witness:
  "After 200000000 (ExpiresAt (snd (hd (handles three_handles)))) \<and>
   Count three_handles = 3 \<and>
   List 200000000 three_handles = [] \<and>
   List 100000001 three_handles =
     [\<lparr>Handle = 13, Path = ''/test/file.txt'', Flags = 2, LeaseTime = 100000000,
       ExpiresAt = 100000002, CreatedAt = 2, LastAccess = 2\<rparr>] \<and>
   int (length (List 100000001 three_handles)) < Count three_handles"
  using Count_ge_List [of three_handles 200000000] Count_ge_List [of three_handles 100000001]
  by (simp add: three_handles_eq After_def)

section \<open>The read buffer of a local FUSE handle\<close>

text \<open>
  C7, when the first fetch fails or two reads overlap. On a local handle whose
  buffer is nil, a read whose fetch fails stores nothing, and the read after it
  calls the client again: two plugin reads. Two reads of which the second enters
  while the first is at the client both find the buffer nil and both call the
  client; the buffer ends as the payload of the second.
\<close>

theorem local_read_refetch_counterexample:
  "Fuse_Reads 2 [(Inl (ErrClient ''timeout''), 0, 10), (Inr (Some queue_payload), 0, 10)]
      local_opened =
     ([ReadErr (Wrapped ''failed to read file'' (ErrClient ''timeout'')),
       ReadOk [0, 1, 2, 3, 4, 5, 6, 7, 8, 9]],
      \<lparr>fhandles = [2 \<mapsto> local_info\<lparr>readBuffer := Some queue_payload\<rparr>], nextHandle = 2,
       client_calls =
         [ClientOpenHandle ''/queue/dequeue'' 0 0, ClientRead ''/queue/dequeue'' 0 (- 1),
          ClientRead ''/queue/dequeue'' 0 (- 1)]\<rparr>) \<and>
   Fuse_Read_overlapped (Inr (Some queue_payload), 0, 10) (Inr (Some [7, 8, 9]), 0, 10) 2
      local_opened =
     ((ReadOk [0, 1, 2, 3, 4, 5, 6, 7, 8, 9], ReadOk [7, 8, 9]),
      \<lparr>fhandles = [2 \<mapsto> local_info\<lparr>readBuffer := Some [7, 8, 9]\<rparr>], nextHandle = 2,
       client_calls =
         [ClientOpenHandle ''/queue/dequeue'' 0 0, ClientRead ''/queue/dequeue'' 0 (- 1),
          ClientRead ''/queue/dequeue'' 0 (- 1)]\<rparr>)"
  by (simp add: local_opened_eq local_info_def Fuse_Read_overlapped_def Fuse_Read_def
      Read_lookup_def Read_finish_def bytes_of_def requested_portion_def slice_expr_def
      int64_def queue_payload_def Let_def)

text \<open>
  C7, for reads one at a time. For a local handle whose buffer is nil, a read
  that no other call overlaps makes exactly one client call,
  \<^verbatim>\<open>Read(path, 0, -1)\<close>, whatever the client answers. When the answer is a
  payload (a slice that is not nil, no error), the whole payload becomes the
  handle's buffer and the read returns the requested portion of it; every run of
  later reads on the handle, at offsets and with sizes that are not negative and
  whose sum fits \<^verbatim>\<open>int64\<close>, whatever the client would answer, makes no client
  call, leaves the manager unchanged and returns, for offset \<open>off\<close> and size
  \<open>n\<close>, the slice of the payload from \<open>off\<close> to the smaller of \<open>off + n\<close> and
  the payload's length; so does the first read. When the answer is an error, the
  read returns it and the buffer stays nil. Once the payload is stored, the
  lookup of any read of the handle, overlapped or not, ends the read with the
  requested portion of the payload and leaves no client call to make.
\<close>

theorem local_read_buffered:
  assumes "fhandles hm fh = Some info" "htype info = handleTypeLocal" "readBuffer info = None"
  shows "(\<forall>resp. client_calls (snd (Fuse_Read resp fh offset sz hm)) =
            client_calls hm @ [ClientRead (path info) 0 (- 1)]) \<and>
    Fuse_Read (Inr (Some payload)) fh offset sz hm =
     (requested_portion payload offset sz,
      hm\<lparr>client_calls := client_calls hm @ [ClientRead (path info) 0 (- 1)],
         fhandles := (fhandles hm)(fh \<mapsto> info\<lparr>readBuffer := Some payload\<rparr>)\<rparr>) \<and>
    (\<forall>rs. (\<forall>(resp, off, n) \<in> set rs. 0 \<le> off \<and> 0 \<le> n \<and> off + n < 2 ^ 63) \<longrightarrow>
       Fuse_Reads fh rs (snd (Fuse_Read (Inr (Some payload)) fh offset sz hm)) =
         (map (\<lambda>(resp, off, n).
            ReadOk (byte_range payload (nat off) (min (nat (off + n)) (length payload)))) rs,
          snd (Fuse_Read (Inr (Some payload)) fh offset sz hm))) \<and>
    (0 \<le> offset \<and> 0 \<le> sz \<and> offset + sz < 2 ^ 63 \<longrightarrow>
       requested_portion payload offset sz =
         ReadOk (byte_range payload (nat offset) (min (nat (offset + sz)) (length payload)))) \<and>
    (\<forall>err. Fuse_Read (Inl err) fh offset sz hm =
       (ReadErr (Wrapped ''failed to read file'' err),
        hm\<lparr>client_calls := client_calls hm @ [ClientRead (path info) 0 (- 1)]\<rparr>)) \<and>
    (\<forall>off n. Read_lookup fh off n (snd (Fuse_Read (Inr (Some payload)) fh offset sz hm)) =
       Finished (requested_portion payload off n))"
proof -
  let ?hm1 = "hm\<lparr>client_calls := client_calls hm @ [ClientRead (path info) 0 (- 1)],
         fhandles := (fhandles hm)(fh \<mapsto> info\<lparr>readBuffer := Some payload\<rparr>)\<rparr>"
  have once: "client_calls (snd (Fuse_Read resp fh offset sz hm)) =
      client_calls hm @ [ClientRead (path info) 0 (- 1)]" for resp
    using assms by (rule Fuse_Read_calls_once)
  have first: "Fuse_Read (Inr (Some payload)) fh offset sz hm =
      (requested_portion payload offset sz, ?hm1)"
    using assms by (rule Fuse_Read_first)
  have later: "Fuse_Reads fh rs ?hm1 =
      (map (\<lambda>(resp, off, n).
         ReadOk (byte_range payload (nat off) (min (nat (off + n)) (length payload)))) rs, ?hm1)"
    if "\<forall>(resp, off, n) \<in> set rs. 0 \<le> off \<and> 0 \<le> n \<and> off + n < 2 ^ 63" for rs
    by (rule Fuse_Reads_buffered [where info = "info\<lparr>readBuffer := Some payload\<rparr>",
          OF _ _ _ that])
       (simp_all add: assms)
  have bytes: "requested_portion payload offset sz =
      ReadOk (byte_range payload (nat offset) (min (nat (offset + sz)) (length payload)))"
    if "0 \<le> offset \<and> 0 \<le> sz \<and> offset + sz < 2 ^ 63"
    using that by (intro requested_portion_range) auto
  have failed: "Fuse_Read (Inl err) fh offset sz hm =
       (ReadErr (Wrapped ''failed to read file'' err),
        hm\<lparr>client_calls := client_calls hm @ [ClientRead (path info) 0 (- 1)]\<rparr>)" for err
    using assms by (rule Fuse_Read_failed_fetch)
  have served: "Read_lookup fh off n ?hm1 = Finished (requested_portion payload off n)" for off n
    using assms by (simp add: Read_lookup_def)
  show ?thesis
    using once first later bytes failed served by (simp only: snd_conv) blast
qed

theorem local_read_buffered_witness:
  "fhandles local_opened 2 = Some local_info \<and> htype local_info = handleTypeLocal \<and>
   readBuffer local_info = None \<and>
   fst (Fuse_Read (Inr (Some queue_payload)) 2 0 10 local_opened) = ReadOk [0, 1, 2, 3, 4, 5, 6, 7, 8, 9] \<and>
   client_calls (snd (Fuse_Read (Inr (Some queue_payload)) 2 0 10 local_opened)) =
     [ClientOpenHandle ''/queue/dequeue'' 0 0, ClientRead ''/queue/dequeue'' 0 (- 1)] \<and>
   fst (Fuse_Reads 2 [(Inr (Some [7]), 10, 10), (Inl (ErrClient ''gone''), 20, 10)]
          (snd (Fuse_Read (Inr (Some queue_payload)) 2 0 10 local_opened))) =
     [ReadOk [10, 11, 12, 13, 14, 15, 16, 17, 18, 19], ReadOk [20, 21, 22, 23, 24]] \<and>
   client_calls (snd (Fuse_Reads 2 [(Inr (Some [7]), 10, 10), (Inl (ErrClient ''gone''), 20, 10)]
          (snd (Fuse_Read (Inr (Some queue_payload)) 2 0 10 local_opened)))) =
     [ClientOpenHandle ''/queue/dequeue'' 0 0, ClientRead ''/queue/dequeue'' 0 (- 1)] \<and>
   Fuse_Read (Inl (ErrClient ''timeout'')) 2 0 10 local_opened =
     (ReadErr (Wrapped ''failed to read file'' (ErrClient ''timeout'')),
      local_opened\<lparr>client_calls :=
        [ClientOpenHandle ''/queue/dequeue'' 0 0, ClientRead ''/queue/dequeue'' 0 (- 1)]\<rparr>)"
proof -
  have hyps: "fhandles local_opened 2 = Some local_info" "htype local_info = handleTypeLocal"
    "readBuffer local_info = None"
    by (simp_all add: local_opened_eq local_info_def)
  note th = local_read_buffered [OF hyps, of 0 10 queue_payload]
  note once = th [THEN conjunct1, THEN spec, of "Inr (Some queue_payload)"]
  note first = th [THEN conjunct2, THEN conjunct1]
  have in_range: "\<forall>(resp, off, n) \<in> set [(Inr (Some [7 :: byte]), 10, 10),
      (Inl (ErrClient ''gone'') :: client_error + slice, 20, 10)].
      0 \<le> off \<and> 0 \<le> n \<and> off + n < (2 :: int) ^ 63"
    by simp
  note reads = th [THEN conjunct2, THEN conjunct2, THEN conjunct1, THEN spec, THEN mp, OF in_range]
  note bytes = th [THEN conjunct2, THEN conjunct2, THEN conjunct2, THEN conjunct1]
  note failed = th [THEN conjunct2, THEN conjunct2, THEN conjunct2, THEN conjunct2,
      THEN conjunct1, THEN spec, of "ErrClient ''timeout''"]
  have br: "byte_range queue_payload (nat 0) (min (nat (0 + 10)) (length queue_payload)) =
      [0, 1, 2, 3, 4, 5, 6, 7, 8, 9]"
    "byte_range queue_payload (nat 10) (min (nat (10 + 10)) (length queue_payload)) =
      [10, 11, 12, 13, 14, 15, 16, 17, 18, 19]"
    "byte_range queue_payload (nat 20) (min (nat (20 + 10)) (length queue_payload)) =
      [20, 21, 22, 23, 24]"
    by (simp_all add: byte_range_def queue_payload_def upt_rec)
  have brn: "byte_range queue_payload 10 (min 20 (length queue_payload)) =
      [10, 11, 12, 13, 14, 15, 16, 17, 18, 19]"
    "byte_range queue_payload 20 (min 30 (length queue_payload)) = [20, 21, 22, 23, 24]"
    using br by simp_all
  have r1: "fst (Fuse_Read (Inr (Some queue_payload)) 2 0 10 local_opened) =
      ReadOk [0, 1, 2, 3, 4, 5, 6, 7, 8, 9]"
    using first bytes br(1) by simp
  have c1: "client_calls (snd (Fuse_Read (Inr (Some queue_payload)) 2 0 10 local_opened)) =
     [ClientOpenHandle ''/queue/dequeue'' 0 0, ClientRead ''/queue/dequeue'' 0 (- 1)]"
    using once by (simp add: local_opened_eq local_info_def)
  have r2: "Fuse_Reads 2 [(Inr (Some [7]), 10, 10), (Inl (ErrClient ''gone''), 20, 10)]
          (snd (Fuse_Read (Inr (Some queue_payload)) 2 0 10 local_opened)) =
     ([ReadOk [10, 11, 12, 13, 14, 15, 16, 17, 18, 19], ReadOk [20, 21, 22, 23, 24]],
      snd (Fuse_Read (Inr (Some queue_payload)) 2 0 10 local_opened))"
    by (simp only: reads) (simp add: brn)
  have f: "Fuse_Read (Inl (ErrClient ''timeout'')) 2 0 10 local_opened =
     (ReadErr (Wrapped ''failed to read file'' (ErrClient ''timeout'')),
      local_opened\<lparr>client_calls :=
        [ClientOpenHandle ''/queue/dequeue'' 0 0, ClientRead ''/queue/dequeue'' 0 (- 1)]\<rparr>)"
    by (simp only: failed) (simp add: local_opened_eq local_info_def)
  show ?thesis
    by (simp only: hyps r1 c1 r2 f fst_conv snd_conv simp_thms)
qed

section \<open>Reads at or past the end\<close>

text \<open>
  C8, on devfs. The devfs file \<^verbatim>\<open>/null\<close> has size 0, and a
  read of it at offset 0 returns a nil slice together with the error
  \<^verbatim>\<open>io.EOF\<close>, not an empty slice with a nil error.
\<close>

theorem read_past_eof_counterexample:
  "DevFS_Stat ''/null'' = Inr \<lparr>Name = ''null'', Size = 0, Mode = 438, IsDir = False\<rparr> \<and>
   DevFS_Read ''/null'' 0 1024 = (None, Some EOF) \<and>
   snd (DevFS_Read ''/null'' 0 1024) \<noteq> None"
  by (simp add: DevFS_Stat_def DevFS_Read_def)

text \<open>
  C8, per read path. Through a local FUSE handle, a read at an offset at or past the
  end of the payload (the buffered one, or the one the read has just fetched
  without error) returns an empty byte slice and no error. The devfs plugin
  answers every read of \<^verbatim>\<open>/null\<close> with a nil slice and the error
  \<^verbatim>\<open>io.EOF\<close>.
\<close>

theorem read_past_eof:
  "(fhandles hm fh = Some info \<and> htype info = handleTypeLocal \<and>
      readBuffer info = Some buf \<and> int (length buf) \<le> offset \<longrightarrow>
      Fuse_Read resp fh offset sz hm = (ReadOk [], hm)) \<and>
   (fhandles hm fh = Some info \<and> htype info = handleTypeLocal \<and>
      readBuffer info = None \<and> len data \<le> offset \<longrightarrow>
      fst (Fuse_Read (Inr data) fh offset sz hm) = ReadOk []) \<and>
   DevFS_Read ''/null'' offset sz = (None, Some EOF)"
  by (auto simp: Fuse_Read_def Read_lookup_def Read_finish_def requested_portion_def
      DevFS_Read_def len_def bytes_of_def Let_def split: option.splits)

theorem read_past_eof_witness:
  "fhandles local_opened 2 = Some local_info \<and> htype local_info = handleTypeLocal \<and>
   readBuffer local_info = None \<and> len (Some queue_payload) \<le> 25 \<and>
   fst (Fuse_Read (Inr (Some queue_payload)) 2 25 10 local_opened) = ReadOk [] \<and>
   fhandles (snd (Fuse_Read (Inr (Some queue_payload)) 2 25 10 local_opened)) 2 =
     Some (local_info\<lparr>readBuffer := Some queue_payload\<rparr>) \<and>
   int (length queue_payload) \<le> 30 \<and>
   fst (Fuse_Read (Inl (ErrClient ''gone'')) 2 30 10
         (snd (Fuse_Read (Inr (Some queue_payload)) 2 25 10 local_opened))) = ReadOk [] \<and>
   DevFS_Read ''/null'' 25 10 = (None, Some EOF)"
proof -
  have hyps: "fhandles local_opened 2 = Some local_info" "htype local_info = handleTypeLocal"
    "readBuffer local_info = None" "len (Some queue_payload) \<le> 25"
    by (simp_all add: local_opened_eq local_info_def len_def queue_payload_def)
  have st: "snd (Fuse_Read (Inr (Some queue_payload)) 2 25 10 local_opened) =
     \<lparr>fhandles = [2 \<mapsto> local_info\<lparr>readBuffer := Some queue_payload\<rparr>], nextHandle = 2,
      client_calls = [ClientOpenHandle ''/queue/dequeue'' 0 0, ClientRead ''/queue/dequeue'' 0 (- 1)]\<rparr>"
    by (simp add: Fuse_Read_def Read_lookup_def Read_finish_def local_opened_eq local_info_def
        bytes_of_def Let_def)
  note fresh = read_past_eof [where hm = local_opened and fh = 2 and info = local_info
      and offset = 25 and sz = 10 and data = "Some queue_payload"]
  note buffered = read_past_eof [where
      hm = "snd (Fuse_Read (Inr (Some queue_payload)) 2 25 10 local_opened)" and fh = 2
      and info = "local_info\<lparr>readBuffer := Some queue_payload\<rparr>" and buf = queue_payload
      and offset = 30 and sz = 10 and resp = "Inl (ErrClient ''gone'')"]
  have l: "int (length queue_payload) \<le> 30" by (simp add: queue_payload_def)
  show ?thesis
    using hyps l fresh [THEN conjunct2] buffered [THEN conjunct1]
    by (simp add: st)
qed

section \<open>Overflow of the index queue\<close>



end
